theory Spec2Isabelle
  imports Main "HOL-Library.Sublist"
begin

section \<open>Python values and the HTTP environment\<close>

text \<open>
  The three modules (\<^verbatim>\<open>document_loaders/ipfs_directory.py\<close>,
  \<^verbatim>\<open>document_loaders/ipfs_file.py\<close>, \<^verbatim>\<open>utilities/ipfs.py\<close>) talk to an IPFS
  daemon over HTTP. Every exception the code can raise is a value of \<open>error\<close>; a method
  returns \<open>error + 'a\<close> (\<open>Inl\<close> the exception) together with the state of the network after
  the call.
\<close>

type_synonym bytes = string

datatype error =
    ConnectionError
  | RequestError string
  | ValueError string
  | Exception string
  | AssertionError
  | UnboundLocalError string
  | KeyError string
  | LibraryError string

text \<open>
  \<open>ConnectionError\<close> is \<^verbatim>\<open>requests.exceptions.ConnectionError\<close>, \<open>RequestError\<close> any other
  exception of \<^verbatim>\<open>requests.post\<close>, \<open>LibraryError\<close> an exception raised inside one of the
  external libraries (python-magic, PyPDF2, pandas, json, faiss, pickle).
\<close>

text \<open>Python's \<^verbatim>\<open>sub in s\<close> on strings.\<close>

fun contains :: "string \<Rightarrow> string \<Rightarrow> bool" where
  "contains sub [] = (sub = [])"
| "contains sub (c # cs) = (prefix sub (c # cs) \<or> contains sub cs)"

text \<open>Python's truth value of an optional string: \<^verbatim>\<open>None\<close> and \<^verbatim>\<open>""\<close> are false.\<close>

definition truthy :: "string option \<Rightarrow> bool" where
  "truthy v = (case v of None \<Rightarrow> False | Some s \<Rightarrow> s \<noteq> [])"

text \<open>Python's \<^verbatim>\<open>str\<close> of an integer, as the f-strings of the error messages use it.\<close>

fun str_nat :: "nat \<Rightarrow> string" where
  "str_nat n = (if n < 10 then [''0123456789'' ! n]
                else str_nat (n div 10) @ [''0123456789'' ! (n mod 10)])"

definition str_int :: "int \<Rightarrow> string" where
  "str_int i = (if i < 0 then CHR ''-'' # str_nat (nat (- i)) else str_nat (nat i))"

text \<open>
  A link of a DAG node as \<^verbatim>\<open>dag/get\<close> returns it. \<open>Hash\<close> is the value of
  \<^verbatim>\<open>link["Hash"]["/"]\<close> and \<open>Name\<close> that of \<^verbatim>\<open>link["Name"]\<close>; \<open>None\<close> stands for an
  absent key. \<open>Links\<close> is the value of the key \<^verbatim>\<open>"Links"\<close> of the node.
\<close>

record link =
  Hash :: "string option"
  Name :: "string option"

record dag_data =
  Links :: "link list option"

text \<open>
  A response of \<^verbatim>\<open>requests.post\<close>: \<open>json\<close> is what \<^verbatim>\<open>response.json()\<close> returns, \<open>None\<close>
  when the body does not parse. \<open>ok\<close> is the property of the requests library: false exactly
  for the status codes 400 to 599.
\<close>

record response =
  status_code :: int
  content :: bytes
  json :: "dag_data option"

definition ok :: "response \<Rightarrow> bool" where
  "ok r = (status_code r < 400 \<or> 600 \<le> status_code r)"

record request =
  url :: string
  auth :: "(string option \<times> string option) option"

text \<open>
  The environment answers a POST depending on the requests made before it, so a daemon that
  fails twice and then answers is a \<open>world\<close>. \<open>net\<close> is the observable history: the POSTs
  made and the delays slept, oldest first.
\<close>

type_synonym world = "request list \<Rightarrow> request \<Rightarrow> error + response"

record net =
  posts :: "request list"
  slept :: "nat list"

definition post :: "world \<Rightarrow> request \<Rightarrow> net \<Rightarrow> (error + response) \<times> net" where
  "post w rq s = (w (posts s) rq, s\<lparr>posts := posts s @ [rq]\<rparr>)"

definition sleep :: "nat \<Rightarrow> net \<Rightarrow> net" where
  "sleep d s = s\<lparr>slept := slept s @ [d]\<rparr>"

section \<open>Configuration shared by the three classes\<close>

record config =
  use_infura :: bool
  infura_api_key :: "string option"
  infura_api_secret :: "string option"
  debug :: bool

definition default_config :: config where
  "default_config = \<lparr>use_infura = False, infura_api_key = None, infura_api_secret = None,
     debug = False\<rparr>"

definition base_url :: string where
  "base_url = ''http://127.0.0.1:5001''"

definition infura_base_url :: string where
  "infura_base_url = ''https://ipfs.infura.io:5001''"

definition base_api_path :: string where
  "base_api_path = ''api/v0''"

definition version_suffix :: string where
  "version_suffix = ''version''"

definition dag_get_suffix :: string where
  "dag_get_suffix = ''dag/get''"

definition read_suffix :: string where
  "read_suffix = ''cat''"

definition max_retries :: nat where
  "max_retries = 5"

definition retry_delay :: nat where
  "retry_delay = 1"

text \<open>
  Every method builds its URL and its authentication the same way:
  \<^verbatim>\<open>f"{base}/{self.base_api_path}/{suffix}"\<close> with the Infura base and
  \<^verbatim>\<open>HTTPBasicAuth(key, secret)\<close> in hosted mode, the local base and no authentication
  otherwise.
\<close>

definition full_url :: "config \<Rightarrow> string \<Rightarrow> string" where
  "full_url c sfx =
     (if use_infura c then infura_base_url else base_url) @ ''/'' @ base_api_path @ ''/'' @ sfx"

definition basic_auth :: "config \<Rightarrow> (string option \<times> string option) option" where
  "basic_auth c = (if use_infura c then Some (infura_api_key c, infura_api_secret c) else None)"

definition version_request :: "config \<Rightarrow> request" where
  "version_request c = \<lparr>url = full_url c version_suffix, auth = basic_auth c\<rparr>"

definition dag_get_request :: "config \<Rightarrow> string \<Rightarrow> request" where
  "dag_get_request c ipfs_hash =
     \<lparr>url = full_url c dag_get_suffix @ ''?arg='' @ ipfs_hash, auth = basic_auth c\<rparr>"

definition cat_request :: "config \<Rightarrow> string \<Rightarrow> request" where
  "cat_request c ipfs_hash =
     \<lparr>url = full_url c read_suffix @ ''?arg='' @ ipfs_hash, auth = basic_auth c\<rparr>"

section \<open>The daemon check and the constructors\<close>

text \<open>
  \<^verbatim>\<open>check_daemon_running\<close> is written three times; the copies differ only in the test of
  the response (\<^verbatim>\<open>status_code == 200\<close> in the directory loader, \<^verbatim>\<open>response.ok\<close> in the
  other two). The loop \<^verbatim>\<open>for i in range(self.max_retries)\<close> is the recursion on the
  number of attempts left; the \<^verbatim>\<open>raise\<close> in the \<^verbatim>\<open>else\<close> branch is not a
  \<^verbatim>\<open>ConnectionError\<close>, so it leaves the loop.
\<close>

fun check_daemon_attempts ::
  "(response \<Rightarrow> bool) \<Rightarrow> world \<Rightarrow> request \<Rightarrow> nat \<Rightarrow> net \<Rightarrow> (error + unit) \<times> net" where
  "check_daemon_attempts good w rq 0 s =
     (Inl (Exception ''IPFS daemon not running or not accessible''), s)"
| "check_daemon_attempts good w rq (Suc n) s =
     (let (res, s') = post w rq s in
      case res of
        Inl e \<Rightarrow>
          if e = ConnectionError then check_daemon_attempts good w rq n (sleep retry_delay s')
          else (Inl e, s')
      | Inr r \<Rightarrow>
          if good r then (Inr (), s')
          else (Inl (Exception ''IPFS daemon not running or not accessible''), s'))"

definition directory_check_daemon_running :: "config \<Rightarrow> world \<Rightarrow> net \<Rightarrow> (error + unit) \<times> net" where
  "directory_check_daemon_running c w s =
     check_daemon_attempts (\<lambda>r. status_code r = 200) w (version_request c) max_retries s"

definition file_check_daemon_running :: "config \<Rightarrow> world \<Rightarrow> net \<Rightarrow> (error + unit) \<times> net" where
  "file_check_daemon_running c w s =
     check_daemon_attempts ok w (version_request c) max_retries s"

definition faiss_check_daemon_running :: "config \<Rightarrow> world \<Rightarrow> net \<Rightarrow> (error + unit) \<times> net" where
  "faiss_check_daemon_running c w s =
     check_daemon_attempts ok w (version_request c) max_retries s"

text \<open>The credential test of the three constructors.\<close>

definition credentials_missing :: "config \<Rightarrow> bool" where
  "credentials_missing c =
     (use_infura c \<and> (\<not> truthy (infura_api_key c) \<or> \<not> truthy (infura_api_secret c)))"

definition directory_init :: "config \<Rightarrow> world \<Rightarrow> net \<Rightarrow> (error + unit) \<times> net" where
  "directory_init c w s =
     (if credentials_missing c
      then (Inl (ValueError ''Infura API key and secret are required when using Infura''), s)
      else directory_check_daemon_running c w s)"

definition file_init :: "config \<Rightarrow> world \<Rightarrow> net \<Rightarrow> (error + unit) \<times> net" where
  "file_init c w s =
     (if credentials_missing c
      then (Inl (ValueError ''Infura API key and secret are required when using Infura''), s)
      else file_check_daemon_running c w s)"

definition faiss_init :: "config \<Rightarrow> world \<Rightarrow> net \<Rightarrow> (error + unit) \<times> net" where
  "faiss_init c w s =
     (if credentials_missing c
      then (Inl (ValueError ''Infura API key and secret are required when using Infura''), s)
      else faiss_check_daemon_running c w s)"

section \<open>The file loader\<close>

datatype pyval = PStr string | PInt int

record document =
  page_content :: string
  metadata :: "string \<rightharpoonup> pyval"

text \<open>\<^verbatim>\<open>IPFSFileDataLoader.load\<close> returns \<^verbatim>\<open>Union[Document, list[Document]]\<close>.\<close>

datatype loaded = Document document | DocumentList "document list"

datatype reader = pdf_reader | csv_reader | json_reader | txt_reader

datatype reader_output = Text string | Rows "document list"

text \<open>
  The external libraries: \<open>magic_from_buffer\<close> is \<^verbatim>\<open>identify_file_type_from_bytes\<close>
  (python-magic), \<open>run_reader\<close> what a reader makes of the bytes of a response (PyPDF2,
  pandas, json, UTF-8 decoding); \<open>Inl\<close> is the message of the exception the library raises.
\<close>

record libs =
  magic_from_buffer :: "bytes \<Rightarrow> string + string"
  run_reader :: "reader \<Rightarrow> bytes \<Rightarrow> string + reader_output"

definition select_reader :: "string \<Rightarrow> error + reader" where
  "select_reader file_type =
     (if contains ''pdf'' file_type then Inr pdf_reader
      else if contains ''csv'' file_type then Inr csv_reader
      else if contains ''json'' file_type then Inr json_reader
      else if contains ''text'' file_type then Inr txt_reader
      else Inl (Exception (''Unsupported file type: '' @ file_type)))"

text \<open>The body of the \<^verbatim>\<open>if response.ok:\<close> branch of \<^verbatim>\<open>IPFSFileDataLoader.load\<close>.\<close>

definition read_response :: "libs \<Rightarrow> string \<Rightarrow> response \<Rightarrow> error + loaded" where
  "read_response L ipfs_hash r =
     (case magic_from_buffer L (content r) of
        Inl m \<Rightarrow> Inl (LibraryError m)
      | Inr file_type \<Rightarrow>
          (case select_reader file_type of
             Inl e \<Rightarrow> Inl e
           | Inr rd \<Rightarrow>
               (case run_reader L rd (content r) of
                  Inl m \<Rightarrow> Inl (LibraryError m)
                | Inr (Text t) \<Rightarrow>
                    Inr (Document \<lparr>page_content = t,
                      metadata = [''ipfs_hash'' \<mapsto> PStr ipfs_hash, ''file_type'' \<mapsto> PStr file_type]\<rparr>)
                | Inr (Rows ds) \<Rightarrow>
                    Inr (DocumentList
                      (map (\<lambda>d. d\<lparr>metadata := (metadata d)(''ipfs_hash'' \<mapsto> PStr ipfs_hash)\<rparr>) ds)))))"

text \<open>
  The retry loop of \<^verbatim>\<open>IPFSFileDataLoader.load\<close>. A response that is not \<open>ok\<close> is logged
  and the loop goes on to its next iteration without sleeping; only a
  \<^verbatim>\<open>ConnectionError\<close> is caught. Logging has no effect on the result and is left out.
\<close>

fun file_load_attempts ::
  "libs \<Rightarrow> world \<Rightarrow> request \<Rightarrow> string \<Rightarrow> nat \<Rightarrow> net \<Rightarrow> (error + loaded) \<times> net" where
  "file_load_attempts L w rq ipfs_hash 0 s =
     (Inl (Exception (''Failed to connect to IPFS daemon for hash '' @ ipfs_hash)), s)"
| "file_load_attempts L w rq ipfs_hash (Suc n) s =
     (let (res, s') = post w rq s in
      case res of
        Inl e \<Rightarrow>
          if e = ConnectionError then file_load_attempts L w rq ipfs_hash n (sleep retry_delay s')
          else (Inl e, s')
      | Inr r \<Rightarrow>
          if ok r then (read_response L ipfs_hash r, s')
          else file_load_attempts L w rq ipfs_hash n s')"

definition file_load :: "libs \<Rightarrow> config \<Rightarrow> world \<Rightarrow> string \<Rightarrow> net \<Rightarrow> (error + loaded) \<times> net" where
  "file_load L c w ipfs_hash s =
     file_load_attempts L w (cat_request c ipfs_hash) ipfs_hash max_retries s"

section \<open>The directory loader\<close>

fun get_dag_get_attempts ::
  "world \<Rightarrow> request \<Rightarrow> string \<Rightarrow> nat \<Rightarrow> net \<Rightarrow> (error + response) \<times> net" where
  "get_dag_get_attempts w rq ipfs_hash 0 s =
     (Inl (Exception (''Could not get DAG for '' @ ipfs_hash)), s)"
| "get_dag_get_attempts w rq ipfs_hash (Suc n) s =
     (let (res, s') = post w rq s in
      case res of
        Inl e \<Rightarrow>
          if e = ConnectionError then get_dag_get_attempts w rq ipfs_hash n (sleep retry_delay s')
          else (Inl e, s')
      | Inr r \<Rightarrow>
          if status_code r = 200 then (Inr r, s')
          else (Inl (Exception (''Failed to get DAG for '' @ ipfs_hash @ '' with status code ''
                  @ str_int (status_code r))), s'))"

definition get_dag_get :: "config \<Rightarrow> world \<Rightarrow> string \<Rightarrow> net \<Rightarrow> (error + response) \<times> net" where
  "get_dag_get c w ipfs_hash s =
     get_dag_get_attempts w (dag_get_request c ipfs_hash) ipfs_hash max_retries s"

definition has_file_extension :: "string \<Rightarrow> bool" where
  "has_file_extension name = contains ''.'' name"

text \<open>
  The state of \<^verbatim>\<open>recursive_dag_get\<close>: the list \<open>all_files\<close> its helper appends to and the
  network. \<open>fetched\<close> records the hashes the helper was called on, in order; the code does
  not keep it, it is here to state how often a hash is fetched.
\<close>

record walk =
  all_files :: "(string \<times> string) list"
  fetched :: "string list"
  net :: net

text \<open>\<^verbatim>\<open>link.get("Hash", {}).get("/")\<close> and \<^verbatim>\<open>link.get("Name", "")\<close>.\<close>

definition link_hash :: "link \<Rightarrow> string option" where
  "link_hash l = Hash l"

definition link_name :: "link \<Rightarrow> string" where
  "link_name l = (case Name l of None \<Rightarrow> [] | Some n \<Rightarrow> n)"

text \<open>\<^verbatim>\<open>dag_data.get("Links", [])\<close>.\<close>

definition node_links :: "dag_data \<Rightarrow> link list" where
  "node_links dag = (case Links dag of None \<Rightarrow> [] | Some ls \<Rightarrow> ls)"

text \<open>
  \<^verbatim>\<open>recursive_dag_get_helper\<close> and its loop over the links. Python's recursion has no
  bound the code sets, so the depth of the recursion is the fuel: \<open>None\<close> is a traversal
  that needs more depth than the fuel allows (with unbounded fuel, one that never returns).
  An exception of a nested call leaves every enclosing loop.
\<close>

fun recursive_dag_get_helper ::
    "nat \<Rightarrow> config \<Rightarrow> world \<Rightarrow> string \<Rightarrow> walk \<Rightarrow> ((error + unit) \<times> walk) option"
  and links_loop ::
    "nat \<Rightarrow> config \<Rightarrow> world \<Rightarrow> link list \<Rightarrow> walk \<Rightarrow> ((error + unit) \<times> walk) option" where
  "recursive_dag_get_helper 0 c w h st = None"
| "recursive_dag_get_helper (Suc k) c w h st =
     (let (res, s') = get_dag_get c w h (net st);
          st' = st\<lparr>fetched := fetched st @ [h], net := s'\<rparr> in
      case res of
        Inl e \<Rightarrow> Some (Inl e, st')
      | Inr r \<Rightarrow>
          if status_code r = 200 then
            (case json r of
               None \<Rightarrow> Some (Inl (LibraryError ''JSONDecodeError''), st')
             | Some dag \<Rightarrow>
                 links_loop k c w (node_links dag) st')
          else Some (Inl (Exception (''Failed to get DAG for '' @ h @ '' with status code ''
                  @ str_int (status_code r))), st'))"
| "links_loop k c w [] st = Some (Inr (), st)"
| "links_loop k c w (l # ls) st =
     (case (if truthy (link_hash l) then recursive_dag_get_helper k c w (the (link_hash l)) st
            else Some (Inr (), st)) of
        None \<Rightarrow> None
      | Some (Inl e, st') \<Rightarrow> Some (Inl e, st')
      | Some (Inr u, st') \<Rightarrow>
          links_loop k c w ls
            (if truthy (link_hash l) \<and> link_name l \<noteq> [] \<and> has_file_extension (link_name l)
             then st'\<lparr>all_files := all_files st' @ [(the (link_hash l), link_name l)]\<rparr>
             else st'))"

definition recursive_dag_get ::
  "nat \<Rightarrow> config \<Rightarrow> world \<Rightarrow> string \<Rightarrow> net \<Rightarrow> ((error + (string \<times> string) list) \<times> walk) option" where
  "recursive_dag_get fuel c w ipfs_hash s =
     (case recursive_dag_get_helper fuel c w ipfs_hash \<lparr>all_files = [], fetched = [], net = s\<rparr> of
        None \<Rightarrow> None
      | Some (Inl e, st) \<Rightarrow> Some (Inl e, st)
      | Some (Inr u, st) \<Rightarrow> Some (Inr (all_files st), st))"

text \<open>The tagging of a loaded file with its link name.\<close>

definition set_source :: "string \<Rightarrow> loaded \<Rightarrow> loaded" where
  "set_source name doc =
     (case doc of
        Document d \<Rightarrow> Document (d\<lparr>metadata := (metadata d)(''source'' \<mapsto> PStr name)\<rparr>)
      | DocumentList ds \<Rightarrow>
          DocumentList (map (\<lambda>d. d\<lparr>metadata := (metadata d)(''source'' \<mapsto> PStr name)\<rparr>) ds))"

text \<open>
  The loop of \<^verbatim>\<open>IPFSDirectoryDataLoader.load\<close> over \<open>all_files\<close>. The file loader is
  \<^verbatim>\<open>IPFSFileDataLoader()\<close>, built with the default arguments. Every exception the model
  has is an \<^verbatim>\<open>Exception\<close> of Python, so \<^verbatim>\<open>except Exception\<close> catches it; the two
  \<^verbatim>\<open>logger.error\<close> calls are left out.
\<close>

fun load_files ::
  "libs \<Rightarrow> world \<Rightarrow> (string \<times> string) list \<Rightarrow> loaded list \<Rightarrow> net \<Rightarrow> loaded list \<times> net" where
  "load_files L w [] results s = (results, s)"
| "load_files L w ((h, name) # fs) results s =
     (let (res, s') = file_load L default_config w h s in
      case res of
        Inl e \<Rightarrow> load_files L w fs results s'
      | Inr doc \<Rightarrow> load_files L w fs (results @ [set_source name doc]) s')"

definition directory_load ::
  "nat \<Rightarrow> libs \<Rightarrow> config \<Rightarrow> world \<Rightarrow> string \<Rightarrow> net \<Rightarrow> ((error + loaded list) \<times> net) option" where
  "directory_load fuel L c w ipfs_hash s =
     (case recursive_dag_get fuel c w ipfs_hash s of
        None \<Rightarrow> None
      | Some (Inl e, st) \<Rightarrow> Some (Inl e, net st)
      | Some (Inr files, st) \<Rightarrow>
          (let (res, s') = file_init default_config w (net st) in
           case res of
             Inl e \<Rightarrow> Some (Inl e, s')
           | Inr u \<Rightarrow> (let (results, s'') = load_files L w files [] s' in Some (Inr results, s''))))"

section \<open>Restoring a vector store\<close>

text \<open>
  \<^verbatim>\<open>IPFSFAISSUtils.get_vectorstore_from_ipfs\<close>. The loop over the links binds
  \<^verbatim>\<open>index_hash\<close> and \<^verbatim>\<open>docstore_hash\<close>; a variable the loop never assigned is
  \<open>None\<close> here, and reading it raises \<^verbatim>\<open>UnboundLocalError\<close>. \<open>rebuild\<close> stands for the
  deserialisation (\<^verbatim>\<open>OpenAIEmbeddings()\<close>, \<^verbatim>\<open>faiss.read_index\<close>,
  \<^verbatim>\<open>pickle.loads\<close>, \<^verbatim>\<open>FAISS(...)\<close>) of the two downloaded contents.
\<close>

fun bind_hashes ::
  "link list \<Rightarrow> string option \<times> string option \<Rightarrow> error + string option \<times> string option" where
  "bind_hashes [] (index_hash, docstore_hash) = Inr (index_hash, docstore_hash)"
| "bind_hashes (l # ls) (index_hash, docstore_hash) =
     (case Name l of
        None \<Rightarrow> Inl (KeyError ''Name'')
      | Some name \<Rightarrow>
          (case (if contains ''index'' name
                 then (case Hash l of None \<Rightarrow> Inl (KeyError ''Hash'') | Some h \<Rightarrow> Inr (Some h))
                 else Inr index_hash) of
             Inl e \<Rightarrow> Inl e
           | Inr index_hash' \<Rightarrow>
               (case (if contains ''docstore'' name
                      then (case Hash l of None \<Rightarrow> Inl (KeyError ''Hash'') | Some h \<Rightarrow> Inr (Some h))
                      else Inr docstore_hash) of
                  Inl e \<Rightarrow> Inl e
                | Inr docstore_hash' \<Rightarrow> bind_hashes ls (index_hash', docstore_hash'))))"

definition get_vectorstore_from_ipfs ::
  "(bytes \<Rightarrow> bytes \<Rightarrow> string + 'v) \<Rightarrow> config \<Rightarrow> world \<Rightarrow> string \<Rightarrow> net \<Rightarrow> (error + 'v) \<times> net" where
  "get_vectorstore_from_ipfs rebuild c w cid s =
     (let (res, s1) = post w (dag_get_request c cid) s in
      case res of
        Inl e \<Rightarrow> (Inl e, s1)
      | Inr response \<Rightarrow>
          (case json response of
             None \<Rightarrow> (Inl (LibraryError ''JSONDecodeError''), s1)
           | Some dag \<Rightarrow>
               (case Links dag of
                  None \<Rightarrow> (Inl (KeyError ''Links''), s1)
                | Some links \<Rightarrow>
                    if length links \<noteq> 2 then (Inl AssertionError, s1)
                    else
                      (case bind_hashes links (None, None) of
                         Inl e \<Rightarrow> (Inl e, s1)
                       | Inr (None, d) \<Rightarrow> (Inl (UnboundLocalError ''index_hash''), s1)
                       | Inr (Some index_hash, None) \<Rightarrow>
                           (Inl (UnboundLocalError ''docstore_hash''), s1)
                       | Inr (Some index_hash, Some docstore_hash) \<Rightarrow>
                           (let (ires, s2) = post w (cat_request c index_hash) s1 in
                            case ires of
                              Inl e \<Rightarrow> (Inl e, s2)
                            | Inr index_response \<Rightarrow>
                                (let (dres, s3) = post w (cat_request c docstore_hash) s2 in
                                 case dres of
                                   Inl e \<Rightarrow> (Inl e, s3)
                                 | Inr docstore_response \<Rightarrow>
                                     (case rebuild (content index_response)
                                             (content docstore_response) of
                                        Inl m \<Rightarrow> (Inl (LibraryError m), s3)
                                      | Inr vs \<Rightarrow> (Inr vs, s3))))))))"

section \<open>The remote structure\<close>

text \<open>
  What the properties of the traversal speak about. The remote structure is a function \<open>G\<close>
  from a hash to the links of its node. A link with a non-empty hash points to a child;
  a link with a non-empty hash and a period in its name is a file link.
\<close>

definition child_hashes :: "link list \<Rightarrow> string list" where
  "child_hashes ls = map (\<lambda>l. the (link_hash l)) (filter (\<lambda>l. truthy (link_hash l)) ls)"

definition file_links :: "link list \<Rightarrow> (string \<times> string) list" where
  "file_links ls =
     map (\<lambda>l. (the (link_hash l), link_name l))
       (filter (\<lambda>l. truthy (link_hash l) \<and> contains ''.'' (link_name l)) ls)"

definition edges :: "(string \<Rightarrow> link list) \<Rightarrow> (string \<times> string) set" where
  "edges G = {(child, parent). child \<in> set (child_hashes (G parent))}"

text \<open>
  The number of links to the hash \<open>x\<close> in the nodes of the list \<open>V\<close>, a node counted as
  often as it stands in the list.
\<close>

definition linked :: "(string \<Rightarrow> link list) \<Rightarrow> string list \<Rightarrow> string \<Rightarrow> nat" where
  "linked G V x = sum_list (map (\<lambda>p. count_list (child_hashes (G p)) x) V)"

text \<open>
  The daemon serves \<open>G\<close> to a loader configured by \<open>c\<close> when every answer with status 200
  to a \<^verbatim>\<open>dag/get\<close> of a hash carries the links of that hash. The daemon may still fail
  or answer with another status at any time.
\<close>

definition serves :: "config \<Rightarrow> world \<Rightarrow> (string \<Rightarrow> link list) \<Rightarrow> bool" where
  "serves c w G =
     (\<forall>hist h r. w hist (dag_get_request c h) = Inr r \<longrightarrow> status_code r = 200 \<longrightarrow>
        (\<exists>dag. json r = Some dag \<and> node_links dag = G h))"

text \<open>
  The local daemon stores the contents \<open>F\<close> when it answers every \<^verbatim>\<open>cat\<close> of a hash, at
  any time, with a successful response carrying the content of that hash.
\<close>

definition stores :: "world \<Rightarrow> (string \<Rightarrow> bytes) \<Rightarrow> bool" where
  "stores w F =
     (\<forall>hist h. \<exists>r. w hist (cat_request default_config h) = Inr r \<and> ok r \<and> content r = F h)"

text \<open>
  The daemon resolves \<open>G\<close> for a loader configured by \<open>c\<close> when it answers every
  \<^verbatim>\<open>dag/get\<close> of a hash, at any time, with status 200 and the links of that hash; the
  local daemon is running when it answers every \<^verbatim>\<open>version\<close> request with a successful
  response.
\<close>

definition resolves :: "config \<Rightarrow> world \<Rightarrow> (string \<Rightarrow> link list) \<Rightarrow> bool" where
  "resolves c w G =
     (\<forall>hist h. \<exists>r dag. w hist (dag_get_request c h) = Inr r \<and> status_code r = 200 \<and>
        json r = Some dag \<and> node_links dag = G h)"

definition running :: "world \<Rightarrow> bool" where
  "running w = (\<forall>hist. \<exists>r. w hist (version_request default_config) = Inr r \<and> ok r)"

text \<open>What the file loader makes of the content stored under a hash.\<close>

definition parsed :: "libs \<Rightarrow> (string \<Rightarrow> bytes) \<Rightarrow> string \<Rightarrow> error + loaded" where
  "parsed L F h = read_response L h \<lparr>status_code = 200, content = F h, json = None\<rparr>"

text \<open>
  A directory of leaf files: every link of the root has a non-empty hash and a name with a
  period, and the node of every link has no links of its own.
\<close>

definition only_leaf_files :: "(string \<Rightarrow> link list) \<Rightarrow> string \<Rightarrow> bool" where
  "only_leaf_files G root =
     list_all (\<lambda>l. truthy (link_hash l) \<and> contains ''.'' (link_name l)
                 \<and> G (the (link_hash l)) = []) (G root)"

text \<open>The hashes a traversal has fetched when it returns.\<close>

definition fetched_by :: "((error + 'a) \<times> walk) option \<Rightarrow> string list" where
  "fetched_by r = (case r of None \<Rightarrow> [] | Some (res, st) \<Rightarrow> fetched st)"



definition documents_of :: "loaded \<Rightarrow> document list" where
  "documents_of x = (case x of Document d \<Rightarrow> [d] | DocumentList ds \<Rightarrow> ds)"

section \<open>Example environments\<close>

text \<open>A daemon that cannot be reached, and one that answers every request with one status.\<close>

definition unreachable :: world where
  "unreachable hist rq = Inl ConnectionError"

definition answering :: "int \<Rightarrow> world" where
  "answering status hist rq = Inr \<lparr>status_code = status, content = [], json = None\<rparr>"

text \<open>A daemon that cannot be reached for the first \<open>n\<close> requests and then answers 200.\<close>

definition waking :: "nat \<Rightarrow> world" where
  "waking n hist rq =
     (if length hist < n then Inl ConnectionError
      else Inr \<lparr>status_code = 200, content = [], json = None\<rparr>)"

text \<open>
  A healthy local daemon holding the structure \<open>G\<close> and the contents \<open>F\<close>: it answers
  \<^verbatim>\<open>dag/get\<close>, \<^verbatim>\<open>cat\<close> and \<^verbatim>\<open>version\<close> with status 200 and nothing else.
\<close>

definition dag_prefix :: string where
  "dag_prefix = full_url default_config dag_get_suffix @ ''?arg=''"

definition cat_prefix :: string where
  "cat_prefix = full_url default_config read_suffix @ ''?arg=''"

definition local_daemon :: "(string \<Rightarrow> link list) \<Rightarrow> (string \<Rightarrow> bytes) \<Rightarrow> world" where
  "local_daemon G F hist rq =
     (if prefix dag_prefix (url rq) then
        Inr \<lparr>status_code = 200, content = [],
             json = Some \<lparr>Links = Some (G (drop (length dag_prefix) (url rq)))\<rparr>\<rparr>
      else if prefix cat_prefix (url rq) then
        Inr \<lparr>status_code = 200, content = F (drop (length cat_prefix) (url rq)), json = None\<rparr>
      else if url rq = full_url default_config version_suffix then
        Inr \<lparr>status_code = 200, content = [], json = None\<rparr>
      else Inl ConnectionError)"

definition file_link :: "string \<Rightarrow> string \<Rightarrow> link" where
  "file_link h name = \<lparr>Hash = Some h, Name = Some name\<rparr>"

text \<open>A root with one text file; a root with one picture; a root linking one directory twice.\<close>

definition one_file :: "string \<Rightarrow> link list" where
  "one_file h = (if h = ''QmRoot'' then [file_link ''QmFile'' ''a.txt''] else [])"

definition one_picture :: "string \<Rightarrow> link list" where
  "one_picture h = (if h = ''QmRoot'' then [file_link ''QmPic'' ''pic.png''] else [])"

definition twice_linked :: "string \<Rightarrow> link list" where
  "twice_linked h =
     (if h = ''QmRoot'' then [file_link ''QmDir'' ''a'', file_link ''QmDir'' ''b'']
      else if h = ''QmDir'' then [file_link ''QmFile'' ''f.txt'']
      else [])"

text \<open>
  A root with a picture and a text file; two roots as \<^verbatim>\<open>send_vectorstore_to_ipfs\<close> could
  have written them, the first without a link named after the index.
\<close>

definition mixed_dir :: "string \<Rightarrow> link list" where
  "mixed_dir h =
     (if h = ''QmRoot'' then [file_link ''QmPic'' ''pic.png'', file_link ''QmFile'' ''a.txt'']
      else [])"

definition no_index_dir :: "string \<Rightarrow> link list" where
  "no_index_dir h =
     (if h = ''QmRoot'' then [file_link ''QmA'' ''tmp1.bin'', file_link ''QmB'' ''tmp2.docstore'']
      else [])"

definition store_dir :: "string \<Rightarrow> link list" where
  "store_dir h =
     (if h = ''QmRoot'' then [file_link ''QmA'' ''tmp1.index'', file_link ''QmB'' ''tmp2.docstore'']
      else [])"

text \<open>A root that links itself.\<close>

definition self_linked :: "string \<Rightarrow> link list" where
  "self_linked h = (if h = ''QmRoot'' then [file_link ''QmRoot'' ''again''] else [])"

definition example_contents :: "string \<Rightarrow> bytes" where
  "example_contents h = (if h = ''QmPic'' then ''PNG...'' else ''hello'')"

text \<open>Toy libraries: the type is sniffed from the first bytes, a reader returns the bytes.\<close>

definition example_libs :: libs where
  "example_libs =
     \<lparr>magic_from_buffer = (\<lambda>b. Inr (if prefix ''PNG'' b then ''image/png'' else ''text/plain'')),
      run_reader = (\<lambda>rd b. Inr (Text b))\<rparr>"

definition no_net :: net where
  "no_net = \<lparr>posts = [], slept = []\<rparr>"

section \<open>Substring tests and the choice of a reader\<close>

lemma contains_sublist: "contains sub s \<longleftrightarrow> sublist sub s"
  by (induction s) (auto simp: sublist_Cons_right)

lemma contains_nonempty: "contains (c # cs) s \<Longrightarrow> s \<noteq> []"
  by (cases s) auto

text \<open>
  C2, as stated: every MIME string containing "text" gets the text reader. The MIME type
  of a CSV file contains "text" and gets the CSV reader.
\<close>

theorem select_reader_text_csv:
  "contains ''text'' ''text/csv'' \<and> select_reader ''text/csv'' = Inr csv_reader \<and>
   select_reader ''text/csv'' \<noteq> Inr txt_reader"
  by (simp add: select_reader_def)

text \<open>
  C2, amended: \<^verbatim>\<open>select_reader\<close> tests "pdf", "csv", "json" and "text" in this order and
  returns the reader of the first substring the MIME string contains; it raises the
  unsupported-format error exactly when the string contains none of the four. A substring
  is stated with \<open>sublist\<close> of the library: \<open>sublist xs ys\<close> is \<open>\<exists>ps ss. ys = ps @ xs @ ss\<close>.
\<close>

theorem select_reader_first_match:
  "(sublist ''pdf'' ft \<longrightarrow> select_reader ft = Inr pdf_reader) \<and>
   (\<not> sublist ''pdf'' ft \<and> sublist ''csv'' ft \<longrightarrow> select_reader ft = Inr csv_reader) \<and>
   (\<not> sublist ''pdf'' ft \<and> \<not> sublist ''csv'' ft \<and> sublist ''json'' ft \<longrightarrow>
      select_reader ft = Inr json_reader) \<and>
   (\<not> sublist ''pdf'' ft \<and> \<not> sublist ''csv'' ft \<and> \<not> sublist ''json'' ft \<and> sublist ''text'' ft \<longrightarrow>
      select_reader ft = Inr txt_reader) \<and>
   (\<not> sublist ''pdf'' ft \<and> \<not> sublist ''csv'' ft \<and> \<not> sublist ''json'' ft \<and> \<not> sublist ''text'' ft \<longrightarrow>
      select_reader ft = Inl (Exception (''Unsupported file type: '' @ ft)))"
  by (simp add: select_reader_def contains_sublist)

theorem select_reader_first_match_witness:
  "select_reader ''application/pdf'' = Inr pdf_reader \<and>
   select_reader ''text/csv'' = Inr csv_reader \<and>
   select_reader ''application/json'' = Inr json_reader \<and>
   select_reader ''text/plain'' = Inr txt_reader \<and>
   select_reader ''image/png'' = Inl (Exception ''Unsupported file type: image/png'')"
  using select_reader_first_match [of "''application/pdf''"]
    select_reader_first_match [of "''text/csv''"]
    select_reader_first_match [of "''application/json''"]
    select_reader_first_match [of "''text/plain''"]
    select_reader_first_match [of "''image/png''"]
  by (simp add: contains_sublist [symmetric])

section \<open>The retry loops\<close>

lemma max_retries_pos: "0 < max_retries"
  by (simp add: max_retries_def)

lemma get_dag_get_attempts_unreachable:
  "(\<And>hist. w hist rq = Inl ConnectionError) \<Longrightarrow>
   get_dag_get_attempts w rq h n s =
     (Inl (Exception (''Could not get DAG for '' @ h)),
      s\<lparr>posts := posts s @ replicate n rq, slept := slept s @ replicate n retry_delay\<rparr>)"
  by (induction n arbitrary: s) (simp_all add: post_def sleep_def replicate_app_Cons_same)

lemma file_load_attempts_unreachable:
  "(\<And>hist. w hist rq = Inl ConnectionError) \<Longrightarrow>
   file_load_attempts L w rq h n s =
     (Inl (Exception (''Failed to connect to IPFS daemon for hash '' @ h)),
      s\<lparr>posts := posts s @ replicate n rq, slept := slept s @ replicate n retry_delay\<rparr>)"
  by (induction n arbitrary: s) (simp_all add: post_def sleep_def replicate_app_Cons_same)

text \<open>
  The daemon check has no target hash; when the daemon cannot be reached it too gives up
  after \<open>max_retries\<close> attempts, each followed by a sleep.
\<close>

lemma check_daemon_attempts_unreachable:
  "(\<And>hist. w hist rq = Inl ConnectionError) \<Longrightarrow>
   check_daemon_attempts good w rq n s =
     (Inl (Exception ''IPFS daemon not running or not accessible''),
      s\<lparr>posts := posts s @ replicate n rq, slept := slept s @ replicate n retry_delay\<rparr>)"
  by (induction n arbitrary: s) (simp_all add: post_def sleep_def replicate_app_Cons_same)

text \<open>
  C6, as stated: every fetch raises its terminal error after exactly \<open>max_retries\<close>
  attempts. \<^verbatim>\<open>get_vectorstore_from_ipfs\<close> has no retry loop: against a daemon that cannot
  be reached it makes one POST and the connection error of that POST is what it raises.
\<close>

theorem restore_does_not_retry:
  "max_retries = 5 \<and>
   get_vectorstore_from_ipfs (\<lambda>i d. Inr (i, d)) default_config unreachable ''QmX'' no_net =
     (Inl ConnectionError, \<lparr>posts = [dag_get_request default_config ''QmX''], slept = []\<rparr>)"
  by (simp add: max_retries_def get_vectorstore_from_ipfs_def post_def unreachable_def no_net_def)

text \<open>
  C6, amended: when every attempt fails with a connection error, the DAG fetch and the file
  fetch raise their terminal error after exactly \<open>max_retries\<close> POSTs, each followed by a
  sleep of \<open>retry_delay\<close>, and the message of the error names what failed and the hash;
  the three daemon checks give up after exactly \<open>max_retries\<close> POSTs and sleeps as well,
  with an error that names no hash (they have none); the restore of a vector store does not
  retry: the connection error of its first POST leaves it at once.
\<close>

theorem retries_exhausted:
  "((\<forall>hist. w hist (dag_get_request c h) = Inl ConnectionError) \<longrightarrow>
      get_dag_get c w h s =
        (Inl (Exception (''Could not get DAG for '' @ h)),
         s\<lparr>posts := posts s @ replicate max_retries (dag_get_request c h),
           slept := slept s @ replicate max_retries retry_delay\<rparr>)) \<and>
   ((\<forall>hist. w hist (cat_request c h) = Inl ConnectionError) \<longrightarrow>
      file_load L c w h s =
        (Inl (Exception (''Failed to connect to IPFS daemon for hash '' @ h)),
         s\<lparr>posts := posts s @ replicate max_retries (cat_request c h),
           slept := slept s @ replicate max_retries retry_delay\<rparr>)) \<and>
   ((\<forall>hist. w hist (version_request c) = Inl ConnectionError) \<longrightarrow>
      directory_check_daemon_running c w s =
        (Inl (Exception ''IPFS daemon not running or not accessible''),
         s\<lparr>posts := posts s @ replicate max_retries (version_request c),
           slept := slept s @ replicate max_retries retry_delay\<rparr>) \<and>
      file_check_daemon_running c w s =
        (Inl (Exception ''IPFS daemon not running or not accessible''),
         s\<lparr>posts := posts s @ replicate max_retries (version_request c),
           slept := slept s @ replicate max_retries retry_delay\<rparr>) \<and>
      faiss_check_daemon_running c w s =
        (Inl (Exception ''IPFS daemon not running or not accessible''),
         s\<lparr>posts := posts s @ replicate max_retries (version_request c),
           slept := slept s @ replicate max_retries retry_delay\<rparr>)) \<and>
   (w (posts s) (dag_get_request c h) = Inl ConnectionError \<longrightarrow>
      get_vectorstore_from_ipfs rebuild c w h s =
        (Inl ConnectionError, s\<lparr>posts := posts s @ [dag_get_request c h]\<rparr>))"
  by (simp add: get_dag_get_def file_load_def directory_check_daemon_running_def
      file_check_daemon_running_def faiss_check_daemon_running_def
      get_dag_get_attempts_unreachable file_load_attempts_unreachable
      check_daemon_attempts_unreachable get_vectorstore_from_ipfs_def post_def)

theorem retries_exhausted_witness:
  "get_dag_get default_config unreachable ''QmX'' no_net =
     (Inl (Exception ''Could not get DAG for QmX''),
      \<lparr>posts = replicate 5 (dag_get_request default_config ''QmX''), slept = [1, 1, 1, 1, 1]\<rparr>) \<and>
   file_load example_libs default_config unreachable ''QmX'' no_net =
     (Inl (Exception ''Failed to connect to IPFS daemon for hash QmX''),
      \<lparr>posts = replicate 5 (cat_request default_config ''QmX''), slept = [1, 1, 1, 1, 1]\<rparr>) \<and>
   faiss_check_daemon_running default_config unreachable no_net =
     (Inl (Exception ''IPFS daemon not running or not accessible''),
      \<lparr>posts = replicate 5 (version_request default_config), slept = [1, 1, 1, 1, 1]\<rparr>) \<and>
   get_vectorstore_from_ipfs (\<lambda>i d. Inr (i, d)) default_config unreachable ''QmX'' no_net =
     (Inl ConnectionError, \<lparr>posts = [dag_get_request default_config ''QmX''], slept = []\<rparr>)"
  using retries_exhausted [of unreachable default_config "''QmX''" no_net example_libs
      "\<lambda>i d. Inr (i, d)"]
  by (simp add: unreachable_def no_net_def max_retries_def retry_delay_def eval_nat_numeral)

text \<open>A connection error is retried: the daemon answers the third attempt, after two sleeps.\<close>

lemma retry_after_connection_errors:
  "get_dag_get default_config (waking 2) ''QmX'' no_net =
     (Inr \<lparr>status_code = 200, content = [], json = None\<rparr>,
      \<lparr>posts = replicate 3 (dag_get_request default_config ''QmX''), slept = [1, 1]\<rparr>) \<and>
   file_load example_libs default_config (waking 2) ''QmX'' no_net =
     (Inr (Document \<lparr>page_content = [],
        metadata = [''ipfs_hash'' \<mapsto> PStr ''QmX'', ''file_type'' \<mapsto> PStr ''text/plain'']\<rparr>),
      \<lparr>posts = replicate 3 (cat_request default_config ''QmX''), slept = [1, 1]\<rparr>)"
  by (simp add: get_dag_get_def file_load_def max_retries_def retry_delay_def eval_nat_numeral
      post_def sleep_def waking_def no_net_def ok_def read_response_def example_libs_def
      select_reader_def)

text \<open>
  The DAG fetch and the three daemon checks fail fast: a response with a status that is not
  a success raises at once, after this one POST and without a sleep.
\<close>

lemma get_dag_get_attempts_bad_status:
  "w (posts s) rq = Inr r \<Longrightarrow> status_code r \<noteq> 200 \<Longrightarrow> 0 < n \<Longrightarrow>
   get_dag_get_attempts w rq h n s =
     (Inl (Exception (''Failed to get DAG for '' @ h @ '' with status code ''
        @ str_int (status_code r))), s\<lparr>posts := posts s @ [rq]\<rparr>)"
  by (cases n) (simp_all add: post_def)

lemma check_daemon_attempts_bad_status:
  "w (posts s) rq = Inr r \<Longrightarrow> \<not> good r \<Longrightarrow> 0 < n \<Longrightarrow>
   check_daemon_attempts good w rq n s =
     (Inl (Exception ''IPFS daemon not running or not accessible''), s\<lparr>posts := posts s @ [rq]\<rparr>)"
  by (cases n) (simp_all add: post_def)

lemma fail_fast_on_bad_status:
  "(w (posts s) (dag_get_request c h) = Inr r \<and> status_code r \<noteq> 200 \<longrightarrow>
      get_dag_get c w h s =
        (Inl (Exception (''Failed to get DAG for '' @ h @ '' with status code ''
           @ str_int (status_code r))), s\<lparr>posts := posts s @ [dag_get_request c h]\<rparr>)) \<and>
   (w (posts s) (version_request c) = Inr r \<and> status_code r \<noteq> 200 \<longrightarrow>
      directory_check_daemon_running c w s =
        (Inl (Exception ''IPFS daemon not running or not accessible''),
         s\<lparr>posts := posts s @ [version_request c]\<rparr>)) \<and>
   (w (posts s) (version_request c) = Inr r \<and> \<not> ok r \<longrightarrow>
      file_check_daemon_running c w s =
        (Inl (Exception ''IPFS daemon not running or not accessible''),
         s\<lparr>posts := posts s @ [version_request c]\<rparr>) \<and>
      faiss_check_daemon_running c w s =
        (Inl (Exception ''IPFS daemon not running or not accessible''),
         s\<lparr>posts := posts s @ [version_request c]\<rparr>))"
  by (simp add: get_dag_get_def directory_check_daemon_running_def file_check_daemon_running_def
      faiss_check_daemon_running_def max_retries_pos get_dag_get_attempts_bad_status
      check_daemon_attempts_bad_status)

lemma file_load_attempts_bad_status:
  "(\<And>hist. \<exists>r. w hist rq = Inr r \<and> \<not> ok r) \<Longrightarrow>
   file_load_attempts L w rq h n s =
     (Inl (Exception (''Failed to connect to IPFS daemon for hash '' @ h)),
      s\<lparr>posts := posts s @ replicate n rq\<rparr>)"
proof (induction n arbitrary: s)
  case 0
  then show ?case by simp
next
  case (Suc n)
  from Suc.prems obtain r where r: "w (posts s) rq = Inr r" "\<not> ok r" by blast
  show ?case
    using r Suc.IH [OF Suc.prems, of "s\<lparr>posts := posts s @ [rq]\<rparr>"]
    by (simp add: post_def replicate_app_Cons_same)
qed

text \<open>
  C1: the file fetch does not fail fast. Against a daemon that answers every
  \<^verbatim>\<open>cat\<close> with a status that is not a success, \<^verbatim>\<open>IPFSFileDataLoader.load\<close> repeats the
  POST \<open>max_retries\<close> times without sleeping and then raises the error of an unreachable
  daemon, where \<^verbatim>\<open>get_dag_get\<close> and the daemon checks raise after the first response.
\<close>

theorem file_load_bad_status_retries:
  "(\<forall>hist. \<exists>r. w hist (cat_request c h) = Inr r \<and> \<not> ok r) \<Longrightarrow>
   file_load L c w h s =
     (Inl (Exception (''Failed to connect to IPFS daemon for hash '' @ h)),
      s\<lparr>posts := posts s @ replicate max_retries (cat_request c h)\<rparr>)"
  by (simp add: file_load_def file_load_attempts_bad_status)

theorem file_load_bad_status_retries_witness:
  "file_load example_libs default_config (answering 500) ''QmX'' no_net =
     (Inl (Exception ''Failed to connect to IPFS daemon for hash QmX''),
      \<lparr>posts = replicate 5 (cat_request default_config ''QmX''), slept = []\<rparr>)"
  using file_load_bad_status_retries [of "answering 500" default_config "''QmX''" example_libs no_net]
  by (simp add: answering_def ok_def no_net_def max_retries_def)

section \<open>The constructors\<close>

text \<open>
  C9: in hosted mode a constructor given no key or no secret (\<^verbatim>\<open>None\<close> or the empty
  string) raises the configuration error and leaves the network untouched; in local mode
  the credentials are not looked at: the constructor does what the daemon check of the
  default configuration does.
\<close>

theorem hosted_mode_needs_credentials:
  "(use_infura c \<and> (infura_api_key c \<in> {None, Some []} \<or> infura_api_secret c \<in> {None, Some []}) \<longrightarrow>
      directory_init c w s =
        (Inl (ValueError ''Infura API key and secret are required when using Infura''), s) \<and>
      file_init c w s =
        (Inl (ValueError ''Infura API key and secret are required when using Infura''), s) \<and>
      faiss_init c w s =
        (Inl (ValueError ''Infura API key and secret are required when using Infura''), s)) \<and>
   (\<not> use_infura c \<longrightarrow>
      directory_init c w s = directory_check_daemon_running default_config w s \<and>
      file_init c w s = file_check_daemon_running default_config w s \<and>
      faiss_init c w s = faiss_check_daemon_running default_config w s)"
  by (auto simp: directory_init_def file_init_def faiss_init_def credentials_missing_def truthy_def
      directory_check_daemon_running_def file_check_daemon_running_def
      faiss_check_daemon_running_def version_request_def full_url_def basic_auth_def
      default_config_def split: option.splits)

theorem hosted_mode_needs_credentials_witness:
  "directory_init \<lparr>use_infura = True, infura_api_key = Some ''key'', infura_api_secret = None,
      debug = False\<rparr> unreachable no_net =
     (Inl (ValueError ''Infura API key and secret are required when using Infura''), no_net) \<and>
   file_init \<lparr>use_infura = True, infura_api_key = Some [], infura_api_secret = Some ''secret'',
      debug = False\<rparr> unreachable no_net =
     (Inl (ValueError ''Infura API key and secret are required when using Infura''), no_net) \<and>
   faiss_init \<lparr>use_infura = False, infura_api_key = None, infura_api_secret = None,
      debug = False\<rparr> (answering 200) no_net =
     (Inr (), \<lparr>posts = [version_request default_config], slept = []\<rparr>)"
  using hosted_mode_needs_credentials [of "\<lparr>use_infura = True, infura_api_key = Some ''key'',
      infura_api_secret = None, debug = False\<rparr>" unreachable no_net]
    hosted_mode_needs_credentials [of "\<lparr>use_infura = True, infura_api_key = Some [],
      infura_api_secret = Some ''secret'', debug = False\<rparr>" unreachable no_net]
    hosted_mode_needs_credentials [of "\<lparr>use_infura = False, infura_api_key = None,
      infura_api_secret = None, debug = False\<rparr>" "answering 200" no_net]
  by (simp add: faiss_check_daemon_running_def max_retries_def eval_nat_numeral post_def
      answering_def ok_def no_net_def)

section \<open>A healthy local daemon\<close>

lemma local_daemon_dag_get:
  "local_daemon G F hist (dag_get_request default_config h) =
     Inr \<lparr>status_code = 200, content = [], json = Some \<lparr>Links = Some (G h)\<rparr>\<rparr>"
  by (simp add: local_daemon_def dag_get_request_def dag_prefix_def)

lemma not_prefix_dag_cat: "\<not> prefix dag_prefix (cat_prefix @ h)"
  by (simp add: dag_prefix_def cat_prefix_def full_url_def default_config_def base_url_def
      base_api_path_def dag_get_suffix_def read_suffix_def)

lemma local_daemon_cat:
  "local_daemon G F hist (cat_request default_config h) =
     Inr \<lparr>status_code = 200, content = F h, json = None\<rparr>"
  using not_prefix_dag_cat [of h]
  by (simp add: local_daemon_def cat_request_def cat_prefix_def)

lemma local_daemon_version:
  "local_daemon G F hist (version_request default_config) =
     Inr \<lparr>status_code = 200, content = [], json = None\<rparr>"
  by (simp add: local_daemon_def version_request_def dag_prefix_def cat_prefix_def full_url_def
      default_config_def base_url_def base_api_path_def dag_get_suffix_def read_suffix_def
      version_suffix_def)

lemma get_dag_get_attempts_first:
  "w (posts s) rq = Inr r \<Longrightarrow> status_code r = 200 \<Longrightarrow> 0 < n \<Longrightarrow>
   get_dag_get_attempts w rq h n s = (Inr r, s\<lparr>posts := posts s @ [rq]\<rparr>)"
  by (cases n) (simp_all add: post_def)

lemma file_load_attempts_first:
  "w (posts s) rq = Inr r \<Longrightarrow> ok r \<Longrightarrow> 0 < n \<Longrightarrow>
   file_load_attempts L w rq h n s = (read_response L h r, s\<lparr>posts := posts s @ [rq]\<rparr>)"
  by (cases n) (simp_all add: post_def)

lemma check_daemon_attempts_first:
  "w (posts s) rq = Inr r \<Longrightarrow> good r \<Longrightarrow> 0 < n \<Longrightarrow>
   check_daemon_attempts good w rq n s = (Inr (), s\<lparr>posts := posts s @ [rq]\<rparr>)"
  by (cases n) (simp_all add: post_def)

lemma read_response_content:
  "content r = content r' \<Longrightarrow> read_response L h r = read_response L h r'"
  unfolding read_response_def by (simp only:)

lemma file_load_stores:
  assumes "stores w F"
  shows "file_load L default_config w h s =
           (parsed L F h, s\<lparr>posts := posts s @ [cat_request default_config h]\<rparr>)"
proof -
  from assms obtain r where r: "w (posts s) (cat_request default_config h) = Inr r" "ok r"
    "content r = F h"
    unfolding stores_def by blast
  have "read_response L h r = parsed L F h"
    unfolding parsed_def using r(3) by (intro read_response_content) simp
  with r show ?thesis
    by (simp add: file_load_def file_load_attempts_first max_retries_pos)
qed

lemma stores_local_daemon: "stores (local_daemon G F) F"
  by (simp add: stores_def local_daemon_cat ok_def)

lemma serves_local_daemon: "serves default_config (local_daemon G F) G"
  by (auto simp: serves_def local_daemon_dag_get node_links_def)

lemma get_dag_get_local_daemon:
  "get_dag_get default_config (local_daemon G F) h s =
     (Inr \<lparr>status_code = 200, content = [], json = Some \<lparr>Links = Some (G h)\<rparr>\<rparr>,
      s\<lparr>posts := posts s @ [dag_get_request default_config h]\<rparr>)"
  by (simp add: get_dag_get_def get_dag_get_attempts_first local_daemon_dag_get max_retries_pos)

lemma file_init_local_daemon:
  "file_init default_config (local_daemon G F) s =
     (Inr (), s\<lparr>posts := posts s @ [version_request default_config]\<rparr>)"
  by (simp add: file_init_def credentials_missing_def default_config_def [of] file_check_daemon_running_def
      check_daemon_attempts_first [where r = "\<lparr>status_code = 200, content = [], json = None\<rparr>"]
      local_daemon_version [unfolded default_config_def] max_retries_pos ok_def)



section \<open>The traversal\<close>

lemma get_dag_get_attempts_Inr:
  "get_dag_get_attempts w rq h n s = (Inr r, s') \<Longrightarrow>
   status_code r = 200 \<and> (\<exists>hist. w hist rq = Inr r)"
  by (induction n arbitrary: s) (auto simp: post_def split: sum.splits if_splits)

lemma helper_serves:
  assumes "serves c w G"
  shows "recursive_dag_get_helper (Suc k) c w h st =
     (case get_dag_get c w h (net st) of
        (Inl e, s') \<Rightarrow> Some (Inl e, st\<lparr>fetched := fetched st @ [h], net := s'\<rparr>)
      | (Inr r, s') \<Rightarrow> links_loop k c w (G h) (st\<lparr>fetched := fetched st @ [h], net := s'\<rparr>))"
proof (cases "get_dag_get c w h (net st)")
  case (Pair res s')
  show ?thesis
  proof (cases res)
    case (Inl e)
    with Pair show ?thesis by simp
  next
    case (Inr r)
    with Pair have "status_code r = 200" "\<exists>hist. w hist (dag_get_request c h) = Inr r"
      using get_dag_get_attempts_Inr [of w "dag_get_request c h" h max_retries "net st" r s']
      by (simp_all add: get_dag_get_def)
    with assms obtain dag where "json r = Some dag" "node_links dag = G h"
      unfolding serves_def by blast
    with Pair Inr \<open>status_code r = 200\<close> show ?thesis by simp
  qed
qed

lemma links_loop_Cons:
  "links_loop k c w (l # ls) st =
     (if truthy (link_hash l) then
        (case recursive_dag_get_helper k c w (the (link_hash l)) st of
           None \<Rightarrow> None
         | Some (Inl e, st') \<Rightarrow> Some (Inl e, st')
         | Some (Inr u, st') \<Rightarrow>
             links_loop k c w ls
               (if contains ''.'' (link_name l)
                then st'\<lparr>all_files := all_files st' @ [(the (link_hash l), link_name l)]\<rparr>
                else st'))
      else links_loop k c w ls st)"
  by (auto simp: has_file_extension_def split: option.splits sum.splits prod.splits dest: contains_nonempty)

lemma links_loop_mono_step:
  assumes "\<And>h st r. recursive_dag_get_helper k c w h st = Some r \<Longrightarrow>
             recursive_dag_get_helper (Suc k) c w h st = Some r"
  shows "links_loop k c w ls st = Some r \<Longrightarrow> links_loop (Suc k) c w ls st = Some r"
proof (induction ls arbitrary: st)
  case Nil
  then show ?case by simp
next
  case (Cons l ls)
  show ?case
  proof (cases "truthy (link_hash l)")
    case False
    with Cons show ?thesis by (simp add: links_loop_Cons del: links_loop.simps)
  next
    case True
    with Cons.prems obtain res st' where
      h: "recursive_dag_get_helper k c w (the (link_hash l)) st = Some (res, st')"
      by (auto simp: links_loop_Cons simp del: links_loop.simps split: option.splits)
    note h' = assms [OF h]
    show ?thesis
      using Cons.prems True h h' Cons.IH
      by (cases res)
        (auto simp: links_loop_Cons simp del: recursive_dag_get_helper.simps links_loop.simps)
  qed
qed

lemma helper_mono_step:
  "recursive_dag_get_helper k c w h st = Some r \<Longrightarrow>
   recursive_dag_get_helper (Suc k) c w h st = Some r"
proof (induction k arbitrary: h st r)
  case 0
  then show ?case by simp
next
  case (Suc k)
  note step = links_loop_mono_step [of k c w, OF Suc.IH]
  show ?case
    using Suc.prems
    by (subst recursive_dag_get_helper.simps)
      (auto simp: Let_def split: prod.splits sum.splits if_splits option.splits intro: step)
qed

lemma helper_mono:
  "k \<le> k' \<Longrightarrow> recursive_dag_get_helper k c w h st = Some r \<Longrightarrow>
   recursive_dag_get_helper k' c w h st = Some r"
  by (induction rule: dec_induct)
    (auto intro: helper_mono_step simp del: recursive_dag_get_helper.simps)

lemma linked_simps [simp]:
  "linked G [] x = 0"
  "linked G (p # V) x = count_list (child_hashes (G p)) x + linked G V x"
  "linked G (V @ V') x = linked G V x + linked G V' x"
  by (simp_all add: linked_def)

lemma child_hashes_simps [simp]:
  "child_hashes [] = []"
  "child_hashes (l # ls) =
     (if truthy (link_hash l) then the (link_hash l) # child_hashes ls else child_hashes ls)"
  by (simp_all add: child_hashes_def)

lemma links_loop_not_None:
  assumes "\<And>y st. y \<in> set (child_hashes ls) \<Longrightarrow> recursive_dag_get_helper k c w y st \<noteq> None"
  shows "links_loop k c w ls st \<noteq> None"
  using assms
proof (induction ls arbitrary: st)
  case Nil
  then show ?case by simp
next
  case (Cons l ls)
  show ?case
  proof (cases "truthy (link_hash l)")
    case False
    with Cons show ?thesis by (simp add: links_loop_Cons del: links_loop.simps)
  next
    case True
    with Cons.prems obtain res st' where
      "recursive_dag_get_helper k c w (the (link_hash l)) st = Some (res, st')"
      by fastforce
    with True Cons show ?thesis
      by (cases res) (simp_all add: links_loop_Cons del: links_loop.simps recursive_dag_get_helper.simps)
  qed
qed

lemma helper_not_None_mono:
  "recursive_dag_get_helper k c w h st \<noteq> None \<Longrightarrow> k \<le> k' \<Longrightarrow>
   recursive_dag_get_helper k' c w h st \<noteq> None"
  using helper_mono [of k k' c w h st] by auto

lemma uniform_fuel:
  assumes "\<And>y. y \<in> set ys \<Longrightarrow> \<exists>k. \<forall>st. recursive_dag_get_helper k c w y st \<noteq> None"
  shows "\<exists>K. \<forall>y \<in> set ys. \<forall>st. recursive_dag_get_helper K c w y st \<noteq> None"
  using assms
proof (induction ys)
  case Nil
  then show ?case by simp
next
  case (Cons y ys)
  from Cons.prems [of y] obtain k where
    k: "\<forall>st. recursive_dag_get_helper k c w y st \<noteq> None"
    by auto
  have "\<exists>K. \<forall>z \<in> set ys. \<forall>st. recursive_dag_get_helper K c w z st \<noteq> None"
    by (rule Cons.IH) (rule Cons.prems, simp)
  then obtain K where
    K: "\<forall>z \<in> set ys. \<forall>st. recursive_dag_get_helper K c w z st \<noteq> None"
    by blast
  have "recursive_dag_get_helper (max k K) c w z st \<noteq> None" if "z \<in> set (y # ys)" for z st
  proof (cases "z = y")
    case True
    from k have "recursive_dag_get_helper k c w y st \<noteq> None" by blast
    from helper_not_None_mono [OF this max.cobounded1] show ?thesis
      unfolding True .
  next
    case False
    with that K have "recursive_dag_get_helper K c w z st \<noteq> None" by auto
    from helper_not_None_mono [OF this max.cobounded2] show ?thesis .
  qed
  then show ?case by blast
qed

lemma helper_terminates:
  assumes "serves c w G" and "wf (edges G)"
  shows "\<exists>k. \<forall>st. recursive_dag_get_helper k c w h st \<noteq> None"
  using assms(2)
proof (induction h rule: wf_induct_rule)
  case (less h)
  have "\<exists>k. \<forall>st. recursive_dag_get_helper k c w y st \<noteq> None"
    if "y \<in> set (child_hashes (G h))" for y
    using that less by (simp add: edges_def)
  from uniform_fuel [OF this] obtain K where
    K: "\<And>y st. y \<in> set (child_hashes (G h)) \<Longrightarrow> recursive_dag_get_helper K c w y st \<noteq> None"
    by blast
  have "recursive_dag_get_helper (Suc K) c w h st \<noteq> None" for st
    using links_loop_not_None [of "G h" K c w, OF K]
    by (simp add: helper_serves [OF assms(1)] del: recursive_dag_get_helper.simps
        split: prod.splits sum.splits)
  then show ?case by blast
qed

lemma count_loop:
  assumes PH: "\<And>h st res st'. recursive_dag_get_helper k c w h st = Some (res, st') \<Longrightarrow>
      \<exists>V. fetched st' = fetched st @ h # V \<and>
          (\<forall>x. count_list (h # V) x \<le> (if x = h then 1 else 0) + linked G (h # V) x)"
  shows "links_loop k c w ls st = Some (res, st') \<Longrightarrow>
      \<exists>V. fetched st' = fetched st @ V \<and>
          (\<forall>x. count_list V x \<le> count_list (child_hashes ls) x + linked G V x)"
proof (induction ls arbitrary: st)
  case Nil
  then show ?case by simp
next
  case (Cons l ls)
  show ?case
  proof (cases "truthy (link_hash l)")
    case False
    with Cons show ?thesis by (simp add: links_loop_Cons del: links_loop.simps)
  next
    case True
    define y where "y = the (link_hash l)"
    from Cons.prems True obtain r1 st1 where
      h: "recursive_dag_get_helper k c w y st = Some (r1, st1)"
      by (auto simp: y_def links_loop_Cons simp del: links_loop.simps recursive_dag_get_helper.simps
          split: option.splits)
    from PH [OF h] obtain V1 where V1: "fetched st1 = fetched st @ y # V1"
      "\<And>x. count_list (y # V1) x \<le> (if x = y then 1 else 0) + linked G (y # V1) x"
      by blast
    show ?thesis
    proof (cases r1)
      case (Inl e)
      with Cons.prems True h have "st' = st1"
        by (simp add: y_def links_loop_Cons del: links_loop.simps recursive_dag_get_helper.simps)
      moreover have "count_list (y # V1) x \<le> count_list (child_hashes (l # ls)) x + linked G (y # V1) x" for x
        using V1(2) [of x] True by (auto simp: y_def)
      ultimately show ?thesis using V1(1) by blast
    next
      case (Inr u)
      define st2 where "st2 = (if contains ''.'' (link_name l)
                then st1\<lparr>all_files := all_files st1 @ [(the (link_hash l), link_name l)]\<rparr>
                else st1)"
      have f2: "fetched st2 = fetched st1" by (simp add: st2_def)
      from Cons.prems True h Inr have "links_loop k c w ls st2 = Some (res, st')"
        by (simp add: y_def st2_def links_loop_Cons del: links_loop.simps recursive_dag_get_helper.simps)
      from Cons.IH [OF this] obtain V2 where V2: "fetched st' = fetched st2 @ V2"
        "\<And>x. count_list V2 x \<le> count_list (child_hashes ls) x + linked G V2 x"
        by blast
      have "count_list (y # V1 @ V2) x \<le> count_list (child_hashes (l # ls)) x + linked G (y # V1 @ V2) x" for x
        using V1(2) [of x] V2(2) [of x] True by (auto simp: y_def)
      moreover have "fetched st' = fetched st @ y # V1 @ V2"
        using V1(1) V2(1) f2 by simp
      ultimately show ?thesis by blast
    qed
  qed
qed

lemma count_helper:
  assumes "serves c w G"
  shows "recursive_dag_get_helper k c w h st = Some (res, st') \<Longrightarrow>
      \<exists>V. fetched st' = fetched st @ h # V \<and>
          (\<forall>x. count_list (h # V) x \<le> (if x = h then 1 else 0) + linked G (h # V) x)"
proof (induction k arbitrary: h st res st')
  case 0
  then show ?case by simp
next
  case (Suc k)
  obtain r1 s1 where g: "get_dag_get c w h (net st) = (r1, s1)" by (cases "get_dag_get c w h (net st)")
  show ?case
  proof (cases r1)
    case (Inl e)
    with Suc.prems g have "fetched st' = fetched st @ h # []"
      by (auto simp: helper_serves [OF assms] simp del: recursive_dag_get_helper.simps)
    moreover have "\<forall>x. count_list (h # []) x \<le> (if x = h then 1 else 0) + linked G (h # []) x"
      by simp
    ultimately show ?thesis by blast
  next
    case (Inr r)
    with Suc.prems g have
      "links_loop k c w (G h) (st\<lparr>fetched := fetched st @ [h], net := s1\<rparr>) = Some (res, st')"
      by (simp add: helper_serves [OF assms] del: recursive_dag_get_helper.simps)
    moreover have "\<exists>V. fetched st' = fetched st @ h # V \<and>
          (\<forall>x. count_list (h # V) x \<le> (if x = h then 1 else 0) + linked G (h # V) x)"
      if "recursive_dag_get_helper k c w h st = Some (res, st')" for h st res st'
      using Suc.IH [OF that] .
    ultimately obtain V where
      V: "fetched st' = fetched st @ h # V"
        "\<And>x. count_list V x \<le> count_list (child_hashes (G h)) x + linked G V x"
      using count_loop [of k c w G "G h" "st\<lparr>fetched := fetched st @ [h], net := s1\<rparr>" res st']
      by auto
    have "count_list (h # V) x \<le> (if x = h then 1 else 0) + linked G (h # V) x" for x
    proof (cases "x = h")
      case True
      with V(2) [of h] show ?thesis by simp
    next
      case False
      with V(2) [of x] show ?thesis by simp
    qed
    with V(1) show ?thesis by blast
  qed
qed

section \<open>Restoring a vector store: the two links\<close>

text \<open>
  C7: when the node of the content hash has a number of links other than two, the restore
  raises the assertion error right after the \<^verbatim>\<open>dag/get\<close>: this POST is the only one
  made, nothing is downloaded, and the result does not depend on the deserialisation
  \<open>rebuild\<close>.
\<close>

theorem restore_asserts_two_links:
  assumes "w (posts s) (dag_get_request c cid) = Inr r"
    and "json r = Some dag" and "Links dag = Some links" and "length links \<noteq> 2"
  shows "get_vectorstore_from_ipfs rebuild c w cid s =
           (Inl AssertionError, s\<lparr>posts := posts s @ [dag_get_request c cid]\<rparr>)"
  using assms by (simp add: get_vectorstore_from_ipfs_def post_def)

theorem restore_asserts_two_links_witness:
  "get_vectorstore_from_ipfs (\<lambda>i d. Inr (i, d)) default_config
      (local_daemon one_file example_contents) ''QmRoot'' no_net =
     (Inl AssertionError, \<lparr>posts = [dag_get_request default_config ''QmRoot''], slept = []\<rparr>)"
  using restore_asserts_two_links [of "local_daemon one_file example_contents" no_net
      default_config "''QmRoot''" _ "\<lparr>Links = Some (one_file ''QmRoot'')\<rparr>" "one_file ''QmRoot''"
      "\<lambda>i d. Inr (i, d)"]
  by (simp add: local_daemon_dag_get one_file_def no_net_def)

text \<open>
  C10: the node has two links, each with a name and a hash. When no name contains
  "index", the restore raises \<^verbatim>\<open>UnboundLocalError\<close> for \<^verbatim>\<open>index_hash\<close>; when a name
  contains "index" and none contains "docstore", for \<^verbatim>\<open>docstore_hash\<close>; in both cases
  after the \<^verbatim>\<open>dag/get\<close> alone. The restore returns a vector store only when a name
  contains "index" and a name contains "docstore".
\<close>

theorem restore_needs_index_and_docstore:
  assumes "w (posts s) (dag_get_request c cid) = Inr r"
    and "json r = Some dag" and "Links dag = Some [l1, l2]"
    and "Name l1 = Some n1" and "Name l2 = Some n2"
    and "Hash l1 = Some h1" and "Hash l2 = Some h2"
  shows "(\<not> contains ''index'' n1 \<and> \<not> contains ''index'' n2 \<longrightarrow>
            get_vectorstore_from_ipfs rebuild c w cid s =
              (Inl (UnboundLocalError ''index_hash''),
               s\<lparr>posts := posts s @ [dag_get_request c cid]\<rparr>)) \<and>
         ((contains ''index'' n1 \<or> contains ''index'' n2) \<and>
          \<not> contains ''docstore'' n1 \<and> \<not> contains ''docstore'' n2 \<longrightarrow>
            get_vectorstore_from_ipfs rebuild c w cid s =
              (Inl (UnboundLocalError ''docstore_hash''),
               s\<lparr>posts := posts s @ [dag_get_request c cid]\<rparr>)) \<and>
         (\<forall>vs s'. get_vectorstore_from_ipfs rebuild c w cid s = (Inr vs, s') \<longrightarrow>
            (contains ''index'' n1 \<or> contains ''index'' n2) \<and>
            (contains ''docstore'' n1 \<or> contains ''docstore'' n2))"
  using assms
  by (auto simp: get_vectorstore_from_ipfs_def post_def split: if_splits)

theorem restore_needs_index_and_docstore_witness:
  "get_vectorstore_from_ipfs (\<lambda>i d. Inr (i, d)) default_config
      (local_daemon no_index_dir example_contents) ''QmRoot'' no_net =
     (Inl (UnboundLocalError ''index_hash''),
      \<lparr>posts = [dag_get_request default_config ''QmRoot''], slept = []\<rparr>)"
  using restore_needs_index_and_docstore [of "local_daemon no_index_dir example_contents" no_net
      default_config "''QmRoot''" _ "\<lparr>Links = Some (no_index_dir ''QmRoot'')\<rparr>"
      "file_link ''QmA'' ''tmp1.bin''" "file_link ''QmB'' ''tmp2.docstore''"
      "''tmp1.bin''" "''tmp2.docstore''" "''QmA''" "''QmB''" "\<lambda>i d. Inr (i, d)"]
  by (simp add: local_daemon_dag_get no_index_dir_def file_link_def no_net_def)

text \<open>With a link named after the index and one after the docstore the restore goes through.\<close>

lemma restore_store_dir:
  "get_vectorstore_from_ipfs (\<lambda>i d. Inr (i, d)) default_config
      (local_daemon store_dir example_contents) ''QmRoot'' no_net =
     (Inr (''hello'', ''hello''),
      \<lparr>posts = [dag_get_request default_config ''QmRoot'', cat_request default_config ''QmA'',
         cat_request default_config ''QmB''], slept = []\<rparr>)"
  by (simp add: get_vectorstore_from_ipfs_def post_def local_daemon_dag_get local_daemon_cat
      store_dir_def file_link_def no_net_def example_contents_def)

section \<open>Runs against the healthy daemon\<close>

lemma read_text_file:
  "parsed example_libs example_contents ''QmFile'' =
     Inr (Document \<lparr>page_content = ''hello'',
       metadata = [''ipfs_hash'' \<mapsto> PStr ''QmFile'', ''file_type'' \<mapsto> PStr ''text/plain'']\<rparr>)"
  by (simp add: parsed_def read_response_def example_libs_def example_contents_def
      select_reader_def)

lemma read_picture:
  "parsed example_libs example_contents ''QmPic'' =
     Inl (Exception ''Unsupported file type: image/png'')"
  by (simp add: parsed_def read_response_def example_libs_def example_contents_def
      select_reader_def)

lemma helper_local_daemon:
  "recursive_dag_get_helper (Suc k) default_config (local_daemon G F) h st =
     links_loop k default_config (local_daemon G F) (G h)
       (st\<lparr>fetched := fetched st @ [h],
          net := (net st)\<lparr>posts := posts (net st) @ [dag_get_request default_config h]\<rparr>\<rparr>)"
  by (simp add: helper_serves [OF serves_local_daemon] get_dag_get_local_daemon
      del: recursive_dag_get_helper.simps)

lemmas walk_simps = helper_local_daemon links_loop_Cons links_loop.simps(1) file_link_def
  link_hash_def link_name_def truthy_def recursive_dag_get_def

lemma walk_mixed_dir:
  "recursive_dag_get 2 default_config (local_daemon mixed_dir example_contents) ''QmRoot'' no_net =
     Some (Inr [(''QmPic'', ''pic.png''), (''QmFile'', ''a.txt'')],
       \<lparr>all_files = [(''QmPic'', ''pic.png''), (''QmFile'', ''a.txt'')],
        fetched = [''QmRoot'', ''QmPic'', ''QmFile''],
        net = \<lparr>posts = [dag_get_request default_config ''QmRoot'',
                 dag_get_request default_config ''QmPic'',
                 dag_get_request default_config ''QmFile''], slept = []\<rparr>\<rparr>)"
  by (simp add: walk_simps mixed_dir_def no_net_def eval_nat_numeral
      del: recursive_dag_get_helper.simps links_loop.simps(2))


section \<open>Termination of the traversal and the number of fetches\<close>

lemma recursive_dag_get_helper_of:
  "recursive_dag_get_helper fuel c w root \<lparr>all_files = [], fetched = [], net = s\<rparr> = Some (r, st) \<Longrightarrow>
   \<exists>res. recursive_dag_get fuel c w root s = Some (res, st)"
  by (cases r) (simp_all add: recursive_dag_get_def)

lemma acyclic_traversal:
  assumes "serves c w G" and "finite (edges G)" and "acyclic (edges G)"
  shows "\<exists>fuel. \<forall>fuel' \<ge> fuel. \<exists>res st.
           recursive_dag_get fuel' c w root s = Some (res, st) \<and>
           (\<forall>x. count_list (fetched st) x \<le> (if x = root then 1 else 0) + linked G (fetched st) x)"
proof -
  let ?st0 = "\<lparr>all_files = [], fetched = [], net = s\<rparr>"
  from assms(2,3) have "wf (edges G)" by (rule finite_acyclic_wf)
  from helper_terminates [OF assms(1) this] obtain fuel where
    fuel: "recursive_dag_get_helper fuel c w root ?st0 \<noteq> None"
    by blast
  have "\<exists>res st. recursive_dag_get fuel' c w root s = Some (res, st) \<and>
          (\<forall>x. count_list (fetched st) x \<le> (if x = root then 1 else 0) + linked G (fetched st) x)"
    if "fuel \<le> fuel'" for fuel'
  proof -
    from helper_not_None_mono [OF fuel that] obtain r st where
      h: "recursive_dag_get_helper fuel' c w root ?st0 = Some (r, st)"
      by auto
    from count_helper [OF assms(1) h] obtain V where
      V: "fetched st = root # V"
        "\<And>x. count_list (root # V) x \<le> (if x = root then 1 else 0) + linked G (root # V) x"
      by auto
    from recursive_dag_get_helper_of [OF h] obtain res where
      "recursive_dag_get fuel' c w root s = Some (res, st)" by blast
    with V show ?thesis by auto
  qed
  then show ?thesis by blast
qed


lemma edges_twice_linked: "edges twice_linked = {(''QmDir'', ''QmRoot''), (''QmFile'', ''QmDir'')}"
  by (auto simp: edges_def twice_linked_def file_link_def link_hash_def truthy_def
      split: if_splits)

lemma wf_twice_linked: "wf (edges twice_linked)"
proof -
  have "edges twice_linked \<subseteq>
          measure (\<lambda>h. if h = ''QmRoot'' then 2 else if h = ''QmDir'' then 1 else 0)"
    by (simp add: edges_twice_linked)
  then show ?thesis by (rule wf_subset [OF wf_measure])
qed

lemma walk_twice_linked:
  "recursive_dag_get 3 default_config (local_daemon twice_linked example_contents) ''QmRoot'' no_net =
     Some (Inr [(''QmFile'', ''f.txt''), (''QmFile'', ''f.txt'')],
       \<lparr>all_files = [(''QmFile'', ''f.txt''), (''QmFile'', ''f.txt'')],
        fetched = [''QmRoot'', ''QmDir'', ''QmFile'', ''QmDir'', ''QmFile''],
        net = \<lparr>posts = [dag_get_request default_config ''QmRoot'',
                 dag_get_request default_config ''QmDir'',
                 dag_get_request default_config ''QmFile'',
                 dag_get_request default_config ''QmDir'',
                 dag_get_request default_config ''QmFile''], slept = []\<rparr>\<rparr>)"
  by (simp add: walk_simps twice_linked_def no_net_def eval_nat_numeral
      del: recursive_dag_get_helper.simps links_loop.simps(2))

text \<open>
  C8, as stated: a hash is fetched at most as often as it is linked. In the structure
  \<open>twice_linked\<close> the root links the node \<^verbatim>\<open>QmDir\<close> twice and \<^verbatim>\<open>QmDir\<close> links
  \<^verbatim>\<open>QmFile\<close> once; these are all the links there are, and the structure is acyclic. The
  traversal fetches \<^verbatim>\<open>QmFile\<close> twice.
\<close>

theorem twice_linked_fetches:
  "acyclic (edges twice_linked) \<and>
   count_list (fetched_by (recursive_dag_get 3 default_config
      (local_daemon twice_linked example_contents) ''QmRoot'' no_net)) ''QmFile'' = 2 \<and>
   linked twice_linked [''QmRoot'', ''QmDir'', ''QmFile''] ''QmFile'' = 1 \<and>
   edges twice_linked = {(''QmDir'', ''QmRoot''), (''QmFile'', ''QmDir'')}"
  using wf_twice_linked [THEN wf_acyclic]
  by (simp add: walk_twice_linked fetched_by_def edges_twice_linked twice_linked_def
      file_link_def link_hash_def truthy_def)


text \<open>A healthy daemon never makes the traversal raise, so a cycle is followed for ever.\<close>

lemma loop_never_raises:
  assumes "\<And>h st r st'. recursive_dag_get_helper k c w h st = Some (r, st') \<Longrightarrow> r = Inr ()"
  shows "links_loop k c w ls st = Some (r, st') \<Longrightarrow> r = Inr ()"
proof (induction ls arbitrary: st)
  case Nil
  then show ?case by simp
next
  case (Cons l ls)
  show ?case
  proof (cases "truthy (link_hash l)")
    case False
    with Cons show ?thesis by (simp add: links_loop_Cons del: links_loop.simps)
  next
    case True
    with Cons.prems obtain r1 st1 where
      h: "recursive_dag_get_helper k c w (the (link_hash l)) st = Some (r1, st1)"
      by (auto simp: links_loop_Cons simp del: links_loop.simps recursive_dag_get_helper.simps
          split: option.splits)
    from assms [OF h] have "r1 = Inr ()" .
    with Cons.prems True h Cons.IH show ?thesis
      by (simp add: links_loop_Cons del: links_loop.simps recursive_dag_get_helper.simps)
  qed
qed

lemma healthy_never_raises:
  "recursive_dag_get_helper k default_config (local_daemon G F) h st = Some (r, st') \<Longrightarrow> r = Inr ()"
proof (induction k arbitrary: h st r st')
  case 0
  then show ?case by simp
next
  case (Suc k)
  have "r = Inr ()"
    if "recursive_dag_get_helper k default_config (local_daemon G F) h st = Some (r, st')"
    for h st r st'
    using Suc.IH [OF that] .
  from loop_never_raises [of k default_config "local_daemon G F", OF this] Suc.prems
  show ?case
    by (simp add: helper_local_daemon del: recursive_dag_get_helper.simps)
qed

lemma loop_reaches_None:
  assumes "\<And>st. recursive_dag_get_helper k default_config (local_daemon G F) a st = None"
    and "a \<in> set (child_hashes ls)"
  shows "links_loop k default_config (local_daemon G F) ls st = None"
  using assms(2)
proof (induction ls arbitrary: st)
  case Nil
  then show ?case by simp
next
  case (Cons l ls)
  show ?case
  proof (cases "truthy (link_hash l)")
    case False
    with Cons show ?thesis by (simp add: links_loop_Cons del: links_loop.simps)
  next
    case True
    show ?thesis
    proof (cases "recursive_dag_get_helper k default_config (local_daemon G F) (the (link_hash l)) st")
      case None
      with True show ?thesis
        by (simp add: links_loop_Cons del: links_loop.simps recursive_dag_get_helper.simps)
    next
      case (Some p)
      obtain r1 st1 where p: "p = (r1, st1)" by (cases p)
      with Some healthy_never_raises have r1: "r1 = Inr ()" by blast
      from Some assms(1) have "the (link_hash l) \<noteq> a" by auto
      with Cons.prems True have "a \<in> set (child_hashes ls)" by auto
      from Cons.IH [OF this] Some p r1 True show ?thesis
        by (simp add: links_loop_Cons del: links_loop.simps recursive_dag_get_helper.simps)
    qed
  qed
qed

lemma cycle_never_returns_helper:
  "(h, h) \<in> (edges G)\<^sup>+ \<Longrightarrow>
   recursive_dag_get_helper k default_config (local_daemon G F) h st = None"
proof (induction k arbitrary: h st)
  case 0
  then show ?case by simp
next
  case (Suc k)
  from Suc.prems obtain a where a: "(h, a) \<in> (edges G)\<^sup>*" "(a, h) \<in> edges G"
    by (metis tranclD2)
  from a(2) a(1) have "(a, a) \<in> (edges G)\<^sup>+" by (rule rtrancl_into_trancl2)
  then have none: "recursive_dag_get_helper k default_config (local_daemon G F) a st = None" for st
    by (rule Suc.IH)
  from a(2) have "a \<in> set (child_hashes (G h))" by (simp add: edges_def)
  from loop_reaches_None [of k G F a, OF none this] show ?case
    by (simp add: helper_local_daemon del: recursive_dag_get_helper.simps)
qed

lemma cycle_never_returns:
  "(root, root) \<in> (edges G)\<^sup>+ \<Longrightarrow>
   recursive_dag_get fuel default_config (local_daemon G F) root s = None"
  by (simp add: recursive_dag_get_def cycle_never_returns_helper)

lemma self_linked_cycle: "(''QmRoot'', ''QmRoot'') \<in> (edges self_linked)\<^sup>+"
  by (rule r_into_trancl)
    (simp add: edges_def self_linked_def file_link_def link_hash_def truthy_def)

text \<open>
  C8, amended: when the daemon serves a finite acyclic structure, the traversal returns
  (from some recursion depth on, for every depth), and it has then fetched a hash \<open>x\<close> at
  most once for the root plus once for every link to \<open>x\<close> in a fetched node, the links of a
  node counted once for each time the node was fetched. Nothing detects a cycle: against
  the healthy daemon, the traversal of a root that lies on a cycle returns at no depth.
\<close>

theorem traversal_terminates_fetch_bound:
  "(serves c w G \<and> finite (edges G) \<and> acyclic (edges G) \<longrightarrow>
      (\<exists>fuel. \<forall>fuel' \<ge> fuel. \<exists>res st.
         recursive_dag_get fuel' c w root s = Some (res, st) \<and>
         (\<forall>x. count_list (fetched st) x
            \<le> (if x = root then 1 else 0) + linked G (fetched st) x))) \<and>
   ((root, root) \<in> (edges G)\<^sup>+ \<longrightarrow>
      (\<forall>fuel. recursive_dag_get fuel default_config (local_daemon G F) root s = None))"
proof (intro conjI impI allI)
  assume "serves c w G \<and> finite (edges G) \<and> acyclic (edges G)"
  then show "\<exists>fuel. \<forall>fuel' \<ge> fuel. \<exists>res st.
         recursive_dag_get fuel' c w root s = Some (res, st) \<and>
         (\<forall>x. count_list (fetched st) x
            \<le> (if x = root then 1 else 0) + linked G (fetched st) x)"
    using acyclic_traversal [of c w G root s] by blast
next
  fix fuel
  assume "(root, root) \<in> (edges G)\<^sup>+"
  then show "recursive_dag_get fuel default_config (local_daemon G F) root s = None"
    by (rule cycle_never_returns)
qed

theorem traversal_terminates_fetch_bound_witness:
  "(\<exists>fuel. \<forall>fuel' \<ge> fuel. \<exists>res st.
      recursive_dag_get fuel' default_config (local_daemon twice_linked example_contents)
        ''QmRoot'' no_net = Some (res, st) \<and>
      (\<forall>x. count_list (fetched st) x
         \<le> (if x = ''QmRoot'' then 1 else 0) + linked twice_linked (fetched st) x)) \<and>
   fetched_by (recursive_dag_get 3 default_config
      (local_daemon twice_linked example_contents) ''QmRoot'' no_net) =
     [''QmRoot'', ''QmDir'', ''QmFile'', ''QmDir'', ''QmFile''] \<and>
   linked twice_linked [''QmRoot'', ''QmDir'', ''QmFile'', ''QmDir'', ''QmFile''] ''QmFile'' = 2 \<and>
   (\<forall>fuel. recursive_dag_get fuel default_config (local_daemon self_linked example_contents)
      ''QmRoot'' no_net = None)"
  using traversal_terminates_fetch_bound [of default_config
      "local_daemon twice_linked example_contents" twice_linked "''QmRoot''" no_net example_contents]
    traversal_terminates_fetch_bound [of default_config
      "local_daemon self_linked example_contents" self_linked "''QmRoot''" no_net example_contents]
    wf_twice_linked [THEN wf_acyclic] serves_local_daemon [of twice_linked example_contents]
    self_linked_cycle
  by (simp add: walk_twice_linked fetched_by_def edges_twice_linked twice_linked_def
      file_link_def link_hash_def truthy_def)

section \<open>What the traversal collects\<close>

lemma file_links_simps [simp]:
  "file_links [] = []"
  "file_links (l # ls) =
     (if truthy (link_hash l) \<and> contains ''.'' (link_name l)
      then (the (link_hash l), link_name l) # file_links ls else file_links ls)"
  by (simp_all add: file_links_def)





lemma recursive_dag_get_Inr:
  "recursive_dag_get fuel c w root s = Some (Inr files, st) \<Longrightarrow>
   recursive_dag_get_helper fuel c w root \<lparr>all_files = [], fetched = [], net = s\<rparr> = Some (Inr (), st)
   \<and> files = all_files st"
  by (auto simp: recursive_dag_get_def split: option.splits sum.splits)





section \<open>A directory of leaf files\<close>

lemma leaf_helper:
  assumes "serves c w G" and "G y = []"
    and "recursive_dag_get_helper k c w y st = Some (Inr u, st1)"
  shows "all_files st1 = all_files st"
proof (cases k)
  case 0
  with assms(3) show ?thesis by simp
next
  case (Suc k')
  with assms(2,3) show ?thesis
    by (auto simp: helper_serves [OF assms(1)] simp del: recursive_dag_get_helper.simps
        split: prod.splits sum.splits)
qed

lemma leaf_loop:
  assumes "serves c w G"
  shows "list_all (\<lambda>l. truthy (link_hash l) \<and> contains ''.'' (link_name l)
                 \<and> G (the (link_hash l)) = []) ls \<Longrightarrow>
     links_loop k c w ls st = Some (Inr u, st') \<Longrightarrow>
     all_files st' = all_files st @ map (\<lambda>l. (the (link_hash l), link_name l)) ls"
proof (induction ls arbitrary: st)
  case Nil
  then show ?case by simp
next
  case (Cons l ls)
  from Cons.prems(1) have l: "truthy (link_hash l)" "contains ''.'' (link_name l)"
    "G (the (link_hash l)) = []" and ls: "list_all (\<lambda>l. truthy (link_hash l) \<and>
       contains ''.'' (link_name l) \<and> G (the (link_hash l)) = []) ls"
    by simp_all
  from Cons.prems(2) l(1) obtain r1 st1 where
    h: "recursive_dag_get_helper k c w (the (link_hash l)) st = Some (r1, st1)"
    by (auto simp: links_loop_Cons simp del: links_loop.simps recursive_dag_get_helper.simps
        split: option.splits)
  with Cons.prems(2) l(1) obtain u1 where r1: "r1 = Inr u1"
    by (cases r1)
      (auto simp: links_loop_Cons simp del: links_loop.simps recursive_dag_get_helper.simps)
  from leaf_helper [OF assms l(3) h [unfolded r1]] have a1: "all_files st1 = all_files st" .
  let ?st2 = "st1\<lparr>all_files := all_files st1 @ [(the (link_hash l), link_name l)]\<rparr>"
  from Cons.prems(2) l h r1 have "links_loop k c w ls ?st2 = Some (Inr u, st')"
    by (simp add: links_loop_Cons del: links_loop.simps recursive_dag_get_helper.simps)
  from Cons.IH [OF ls this] a1 show ?case by simp
qed

lemma leaf_directory_files:
  assumes "serves c w G" and "only_leaf_files G root"
    and "recursive_dag_get fuel c w root s = Some (Inr files, st)"
  shows "files = map (\<lambda>l. (the (link_hash l), link_name l)) (G root)"
proof -
  from recursive_dag_get_Inr [OF assms(3)] have
    h: "recursive_dag_get_helper fuel c w root \<lparr>all_files = [], fetched = [], net = s\<rparr> = Some (Inr (), st)"
    and files: "files = all_files st"
    by simp_all
  show ?thesis
  proof (cases fuel)
    case 0
    with h show ?thesis by simp
  next
    case (Suc k)
    with h obtain st1 where "links_loop k c w (G root) st1 = Some (Inr (), st)" "all_files st1 = []"
      by (auto simp: helper_serves [OF assms(1)] simp del: recursive_dag_get_helper.simps
          split: prod.splits sum.splits)
    with leaf_loop [OF assms(1) assms(2) [unfolded only_leaf_files_def]] files
    show ?thesis by simp
  qed
qed

lemma load_files_stores:
  assumes "stores w F"
  shows "fst (load_files L w fs results s) =
     results @ concat (map (\<lambda>(h, n). case parsed L F h of Inl e \<Rightarrow> [] | Inr d \<Rightarrow> [set_source n d]) fs)"
  by (induction fs arbitrary: results s)
    (auto simp: file_load_stores [OF assms] split: sum.splits)

lemma source_of_set_source:
  "list_all (\<lambda>d. metadata d ''source'' = Some (PStr n)) (documents_of (set_source n x))"
  by (cases x) (simp_all add: documents_of_def set_source_def list_all_iff)

lemma list_all2_filter_concat:
  assumes "\<And>l. l \<in> set ls \<Longrightarrow> Q l \<Longrightarrow> \<exists>x. f l = [x] \<and> P l x"
    and "\<And>l. l \<in> set ls \<Longrightarrow> \<not> Q l \<Longrightarrow> f l = []"
  shows "list_all2 P (filter Q ls) (concat (map f ls))"
  using assms
proof (induction ls)
  case Nil
  then show ?case by simp
next
  case (Cons l ls)
  then have IH: "list_all2 P (filter Q ls) (concat (map f ls))" by simp
  show ?case
  proof (cases "Q l")
    case True
    with Cons.prems(1) [of l] obtain x where "f l = [x]" "P l x" by auto
    with True IH show ?thesis by simp
  next
    case False
    with Cons.prems(2) [of l] IH show ?thesis by simp
  qed
qed

lemma directory_load_Inr:
  "directory_load fuel L c w root s = Some (Inr results, s') \<Longrightarrow>
   \<exists>files st s1. recursive_dag_get fuel c w root s = Some (Inr files, st) \<and>
      load_files L w files [] s1 = (results, s')"
  by (auto simp: directory_load_def split: option.splits sum.splits prod.splits)

lemma leaf_directory_results_if_returned:
  assumes "serves c w G" and "stores w F" and "only_leaf_files G root"
    and "directory_load fuel L c w root s = Some (Inr results, s')"
  shows "list_all2
           (\<lambda>l x. (\<exists>doc. parsed L F (the (link_hash l)) = Inr doc \<and> x = set_source (link_name l) doc) \<and>
                  list_all (\<lambda>d. metadata d ''source'' = Some (PStr (link_name l))) (documents_of x))
           (filter (\<lambda>l. \<exists>doc. parsed L F (the (link_hash l)) = Inr doc) (G root)) results"
proof -
  from directory_load_Inr [OF assms(4)] obtain files st s1 where
    walk: "recursive_dag_get fuel c w root s = Some (Inr files, st)"
    and load: "load_files L w files [] s1 = (results, s')"
    by blast
  from load have results: "results = fst (load_files L w files [] s1)" by simp
  let ?f = "\<lambda>l. case parsed L F (the (link_hash l)) of Inl e \<Rightarrow> []
                 | Inr d \<Rightarrow> [set_source (link_name l) d]"
  have "results = concat (map ?f (G root))"
    unfolding results leaf_directory_files [OF assms(1,3) walk] load_files_stores [OF assms(2)]
    by (simp add: comp_def)
  moreover have "list_all2
           (\<lambda>l x. (\<exists>doc. parsed L F (the (link_hash l)) = Inr doc \<and> x = set_source (link_name l) doc) \<and>
                  list_all (\<lambda>d. metadata d ''source'' = Some (PStr (link_name l))) (documents_of x))
           (filter (\<lambda>l. \<exists>doc. parsed L F (the (link_hash l)) = Inr doc) (G root))
           (concat (map ?f (G root)))"
    by (rule list_all2_filter_concat) (auto simp: source_of_set_source split: sum.splits)
  ultimately show ?thesis by simp
qed


lemma walk_one_picture:
  "recursive_dag_get 2 default_config (local_daemon one_picture example_contents) ''QmRoot'' no_net =
     Some (Inr [(''QmPic'', ''pic.png'')],
       \<lparr>all_files = [(''QmPic'', ''pic.png'')],
        fetched = [''QmRoot'', ''QmPic''],
        net = \<lparr>posts = [dag_get_request default_config ''QmRoot'',
                 dag_get_request default_config ''QmPic''], slept = []\<rparr>\<rparr>)"
  by (simp add: walk_simps one_picture_def no_net_def eval_nat_numeral
      del: recursive_dag_get_helper.simps links_loop.simps(2))

lemma load_one_picture:
  "directory_load 2 example_libs default_config (local_daemon one_picture example_contents)
      ''QmRoot'' no_net =
     Some (Inr [],
       \<lparr>posts = [dag_get_request default_config ''QmRoot'',
                 dag_get_request default_config ''QmPic'',
                 version_request default_config,
                 cat_request default_config ''QmPic''], slept = []\<rparr>)"
  by (simp add: directory_load_def walk_one_picture file_init_local_daemon
      file_load_stores [OF stores_local_daemon] read_picture)

lemma load_mixed_dir:
  "directory_load 2 example_libs default_config (local_daemon mixed_dir example_contents)
      ''QmRoot'' no_net =
     Some (Inr [Document \<lparr>page_content = ''hello'',
         metadata = [''ipfs_hash'' \<mapsto> PStr ''QmFile'', ''file_type'' \<mapsto> PStr ''text/plain'',
           ''source'' \<mapsto> PStr ''a.txt'']\<rparr>],
       \<lparr>posts = [dag_get_request default_config ''QmRoot'',
                 dag_get_request default_config ''QmPic'',
                 dag_get_request default_config ''QmFile'',
                 version_request default_config,
                 cat_request default_config ''QmPic'',
                 cat_request default_config ''QmFile''], slept = []\<rparr>)"
  by (simp add: directory_load_def walk_mixed_dir file_init_local_daemon
      file_load_stores [OF stores_local_daemon] read_picture read_text_file set_source_def)

text \<open>
  C5, as stated: one result per leaf file with an extension. The directory \<open>one_picture\<close>
  holds one leaf file, \<^verbatim>\<open>pic.png\<close>; its type has no reader, the load of the file raises
  and is skipped, and the load of the directory returns no result.
\<close>

theorem picture_directory_is_empty:
  "only_leaf_files one_picture ''QmRoot'' \<and>
   one_picture ''QmRoot'' = [\<lparr>Hash = Some ''QmPic'', Name = Some ''pic.png''\<rparr>] \<and>
   map_option fst (directory_load 2 example_libs default_config
      (local_daemon one_picture example_contents) ''QmRoot'' no_net) = Some (Inr [])"
  by (simp add: load_one_picture only_leaf_files_def one_picture_def file_link_def link_hash_def
      link_name_def truthy_def)

lemma only_leaf_files_mixed_dir: "only_leaf_files mixed_dir ''QmRoot''"
  by (simp add: only_leaf_files_def mixed_dir_def file_link_def link_hash_def
      link_name_def truthy_def)

text \<open>
  When the daemon resolves every hash and the local daemon is running, the load of a
  directory of leaf files returns at every recursion depth from 2 on.
\<close>

lemma resolves_serves:
  assumes "resolves c w G"
  shows "serves c w G"
  unfolding serves_def
proof (intro allI impI)
  fix hist h r
  assume r: "w hist (dag_get_request c h) = Inr r"
  from assms obtain r' dag where "w hist (dag_get_request c h) = Inr r'" "json r' = Some dag"
    "node_links dag = G h"
    unfolding resolves_def by blast
  with r show "\<exists>dag. json r = Some dag \<and> node_links dag = G h" by auto
qed

lemma get_dag_get_resolves:
  assumes "resolves c w G"
  shows "\<exists>r. get_dag_get c w h s = (Inr r, s\<lparr>posts := posts s @ [dag_get_request c h]\<rparr>)"
proof -
  from assms obtain r where "w (posts s) (dag_get_request c h) = Inr r" "status_code r = 200"
    unfolding resolves_def by blast
  then show ?thesis
    by (auto simp: get_dag_get_def get_dag_get_attempts_first max_retries_pos)
qed

lemma helper_resolves:
  assumes "resolves c w G"
  shows "recursive_dag_get_helper (Suc k) c w h st =
     links_loop k c w (G h)
       (st\<lparr>fetched := fetched st @ [h],
          net := (net st)\<lparr>posts := posts (net st) @ [dag_get_request c h]\<rparr>\<rparr>)"
proof -
  from get_dag_get_resolves [OF assms] obtain r where
    "get_dag_get c w h (net st) = (Inr r, (net st)\<lparr>posts := posts (net st) @ [dag_get_request c h]\<rparr>)"
    by blast
  then show ?thesis
    by (simp add: helper_serves [OF resolves_serves [OF assms]] del: recursive_dag_get_helper.simps)
qed

lemma leaf_loop_returns:
  assumes "resolves c w G"
  shows "list_all (\<lambda>l. truthy (link_hash l) \<and> contains ''.'' (link_name l)
                 \<and> G (the (link_hash l)) = []) ls \<Longrightarrow>
     \<exists>st'. links_loop (Suc k) c w ls st = Some (Inr (), st')"
proof (induction ls arbitrary: st)
  case Nil
  then show ?case by simp
next
  case (Cons l ls)
  from Cons.prems have l: "truthy (link_hash l)" "G (the (link_hash l)) = []"
    and ls: "list_all (\<lambda>l. truthy (link_hash l) \<and>
       contains ''.'' (link_name l) \<and> G (the (link_hash l)) = []) ls"
    by simp_all
  from Cons.IH [OF ls] l show ?case
    by (simp add: links_loop_Cons helper_resolves [OF assms]
        del: links_loop.simps(2) recursive_dag_get_helper.simps)
qed

lemma leaf_traversal_returns:
  assumes "resolves c w G" and "only_leaf_files G root" and "2 \<le> fuel"
  shows "\<exists>files st. recursive_dag_get fuel c w root s = Some (Inr files, st)"
proof -
  from assms(3) obtain k where fuel: "fuel = Suc (Suc k)"
    by (metis add_2_eq_Suc le_Suc_ex)
  from leaf_loop_returns [OF assms(1) assms(2) [unfolded only_leaf_files_def]] show ?thesis
    unfolding fuel recursive_dag_get_def helper_resolves [OF assms(1)]
    by (metis (no_types, lifting) old.sum.simps(6) option.simps(5) case_prod_conv)
qed

lemma file_init_running:
  assumes "running w"
  shows "\<exists>s1. file_init default_config w s = (Inr (), s1)"
proof -
  from assms obtain r where "w (posts s) (version_request default_config) = Inr r" "ok r"
    unfolding running_def by blast
  then have "file_check_daemon_running default_config w s =
      (Inr (), s\<lparr>posts := posts s @ [version_request default_config]\<rparr>)"
    by (simp add: file_check_daemon_running_def check_daemon_attempts_first max_retries_pos)
  then show ?thesis
    by (simp add: file_init_def credentials_missing_def default_config_def)
qed

lemma leaf_directory_returns:
  assumes "resolves c w G" and "running w" and "only_leaf_files G root" and "2 \<le> fuel"
  shows "\<exists>results s'. directory_load fuel L c w root s = Some (Inr results, s')"
proof -
  from leaf_traversal_returns [OF assms(1,3,4)] obtain files st where
    walk: "recursive_dag_get fuel c w root s = Some (Inr files, st)" by blast
  from file_init_running [OF assms(2)] obtain s1 where
    init: "file_init default_config w (net st) = (Inr (), s1)" by blast
  obtain results s2 where "load_files L w files [] s1 = (results, s2)"
    by (cases "load_files L w files [] s1")
  with walk init show ?thesis
    by (simp add: directory_load_def)
qed

text \<open>
  C5, amended: the daemon resolves a directory of leaf files with a period in every name,
  and the local daemon is running and stores the contents. Then the load of the directory
  returns, and its results are, in the order of the links, one result for each file that
  the file loader can read; every document of the result of a file carries the name of its
  link as \<^verbatim>\<open>"source"\<close>. A file whose load raises has no result.
\<close>

theorem leaf_directory_results:
  assumes "resolves c w G" and "running w" and "stores w F"
    and "only_leaf_files G root" and "2 \<le> fuel"
  shows "\<exists>results s'. directory_load fuel L c w root s = Some (Inr results, s') \<and>
     list_all2
       (\<lambda>l x. (\<exists>doc. parsed L F (the (link_hash l)) = Inr doc \<and> x = set_source (link_name l) doc) \<and>
              list_all (\<lambda>d. metadata d ''source'' = Some (PStr (link_name l))) (documents_of x))
       (filter (\<lambda>l. \<exists>doc. parsed L F (the (link_hash l)) = Inr doc) (G root)) results"
proof -
  from leaf_directory_returns [OF assms(1,2,4,5)] obtain results s' where
    load: "directory_load fuel L c w root s = Some (Inr results, s')" by blast
  from leaf_directory_results_if_returned [OF resolves_serves [OF assms(1)] assms(3,4) load] load
  show ?thesis by blast
qed

lemma resolves_local_daemon: "resolves default_config (local_daemon G F) G"
  by (simp add: resolves_def local_daemon_dag_get node_links_def)

lemma running_local_daemon: "running (local_daemon G F)"
  by (simp add: running_def local_daemon_version ok_def)

theorem leaf_directory_results_witness:
  "only_leaf_files mixed_dir ''QmRoot'' \<and>
   map_option fst (directory_load 2 example_libs default_config
      (local_daemon mixed_dir example_contents) ''QmRoot'' no_net) =
     Some (Inr [Document \<lparr>page_content = ''hello'',
        metadata = [''ipfs_hash'' \<mapsto> PStr ''QmFile'', ''file_type'' \<mapsto> PStr ''text/plain'',
          ''source'' \<mapsto> PStr ''a.txt'']\<rparr>]) \<and>
   list_all2
     (\<lambda>l x. (\<exists>doc. parsed example_libs example_contents (the (link_hash l)) = Inr doc \<and>
                x = set_source (link_name l) doc) \<and>
            list_all (\<lambda>d. metadata d ''source'' = Some (PStr (link_name l))) (documents_of x))
     [file_link ''QmFile'' ''a.txt'']
     [Document \<lparr>page_content = ''hello'',
        metadata = [''ipfs_hash'' \<mapsto> PStr ''QmFile'', ''file_type'' \<mapsto> PStr ''text/plain'',
          ''source'' \<mapsto> PStr ''a.txt'']\<rparr>]"
  using leaf_directory_results [OF resolves_local_daemon running_local_daemon stores_local_daemon
      only_leaf_files_mixed_dir, where fuel = 2 and L = example_libs and s = no_net]
  by (simp add: only_leaf_files_mixed_dir load_mixed_dir mixed_dir_def file_link_def link_hash_def
      link_name_def read_picture read_text_file set_source_def documents_of_def)

end
